theory Spec2Isabelle
  imports Complex_Main "HOL-Library.Multiset" "HOL-Library.Sublist"
begin

section \<open>Data model (src/types.ts)\<close>

text \<open>
  The two string enums become datatypes. A filter is either one enum value or the
  sentinel string the source writes for "all" (the union type of \<open>filterDifficulty\<close> and
  \<open>filterCategory\<close>), here the constructor \<open>Everything\<close>.
\<close>

datatype Difficulty = Beginner | Intermediate | Advanced

datatype GrammarCategory =
  NonFinite | RelativeClause | AdverbialClause | Conjunction | NounClause | Tense

datatype 'a filter_choice = Everything | Only 'a

record QOption =
  option_id :: string
  option_text :: string

record Explanation =
  correctAnswer :: string
  grammar_rule :: string
  example_text :: string
  commonMistake :: string
  reviewLink :: "string option"

record Question =
  question_id :: int
  sentence :: string
  options :: "QOption list"
  correctOptionId :: string
  difficulty :: Difficulty
  category :: GrammarCategory
  explanation :: Explanation

record UserAnswer =
  questionId :: int
  answerOptionId :: string
  isCorrect :: bool

section \<open>shuffleArray\<close>

text \<open>
  \<open>Math.random()\<close> is the only source of nondeterminism, and its value is read in one
  expression only, \<open>Math.floor(Math.random() * (i + 1))\<close>. The engine evaluates it in
  IEEE double arithmetic: it floors the product rounded to the nearest double, which
  is not always the floor of the exact product. Doubles are not modelled. The random
  source \<open>rnd\<close> gives the value of the whole expression instead: \<open>rnd k n\<close> is the value
  of \<open>Math.floor(Math.random() * n)\<close> where the \<open>k\<close>-th call of \<open>Math.random()\<close> is
  made. \<open>valid_rnd\<close> is what is known of these values: each is an index below \<open>n\<close>,
  since \<open>Math.random()\<close> returns a double in \<open>[0, 1)\<close> and the rounded product of such a
  double and \<open>n\<close> stays below \<open>n\<close>. How the values are distributed is not part of the
  model.
\<close>

type_synonym random_source = "nat \<Rightarrow> nat \<Rightarrow> nat"

definition valid_rnd :: "random_source \<Rightarrow> bool" where
  "valid_rnd rnd \<longleftrightarrow> (\<forall>k n. 0 < n \<longrightarrow> rnd k n < n)"

text \<open>
  The destructuring assignment \<open>[a[i], a[j]] = [a[j], a[i]]\<close>: both reads happen first,
  then \<open>a[i]\<close> and \<open>a[j]\<close> are written in this order.
\<close>

definition swap :: "nat \<Rightarrow> nat \<Rightarrow> 'a list \<Rightarrow> 'a list" where
  "swap i j a = a[i := a ! j, j := a ! i]"

text \<open>
  The loop \<open>for (let i = shuffled.length - 1; i > 0; i--)\<close>. The argument \<open>k\<close> counts
  the calls of \<open>Math.random()\<close> made so far. For the empty array the source starts at
  \<open>i = -1\<close> and the model at \<open>i = 0\<close>; the body runs in neither.
\<close>

fun shuffle_loop :: "random_source \<Rightarrow> nat \<Rightarrow> nat \<Rightarrow> 'a list \<Rightarrow> 'a list" where
  "shuffle_loop rnd k 0 a = a"
| "shuffle_loop rnd k (Suc i) a =
     (let j = rnd k (Suc i + 1)
      in shuffle_loop rnd (Suc k) i (swap (Suc i) j a))"

definition shuffleArray :: "random_source \<Rightarrow> 'a list \<Rightarrow> 'a list" where
  "shuffleArray rnd array = shuffle_loop rnd 0 (length array - 1) array"

section \<open>Session state (the \<open>useState\<close> cells of \<open>App\<close>)\<close>

record session =
  isStarted :: bool
  currentIndex :: int
  selectedOptionId :: "string option"
  isSubmitted :: bool
  answers :: "UserAnswer list"
  isFinished :: bool
  filterDifficulty :: "Difficulty filter_choice"
  filterCategory :: "GrammarCategory filter_choice"
  timerDuration :: "int option"
  timeRemaining :: "int option"
  startTime :: "int option"
  allQuestions :: "Question list"

text \<open>
  The question bank \<open>questions\<close> of the module \<open>./data/questions\<close> is static data;
  it is the parameter \<open>bank\<close> of everything that reads it.
\<close>

definition sample :: "Question list \<Rightarrow> random_source \<Rightarrow> Question list" where
  "sample bank rnd = take 20 (shuffleArray rnd bank)"

definition initialSession :: "Question list \<Rightarrow> random_source \<Rightarrow> session" where
  "initialSession bank rnd =
     \<lparr> isStarted = False, currentIndex = 0, selectedOptionId = None, isSubmitted = False,
       answers = [], isFinished = False, filterDifficulty = Everything,
       filterCategory = Everything, timerDuration = None, timeRemaining = None,
       startTime = None, allQuestions = sample bank rnd \<rparr>"

definition matches :: "'a filter_choice \<Rightarrow> 'a \<Rightarrow> bool" where
  "matches f v = (f = Everything \<or> Only v = f)"

definition filteredQuestions :: "session \<Rightarrow> Question list" where
  "filteredQuestions s =
     filter (\<lambda>q. matches (filterDifficulty s) (difficulty q)
                \<and> matches (filterCategory s) (category q))
            (allQuestions s)"

text \<open>\<open>filteredQuestions[currentIndex]\<close>; \<open>None\<close> is JavaScript's \<open>undefined\<close>.\<close>

definition currentQuestion :: "session \<Rightarrow> Question option" where
  "currentQuestion s =
     (if 0 \<le> currentIndex s \<and> currentIndex s < int (length (filteredQuestions s))
      then Some (filteredQuestions s ! nat (currentIndex s)) else None)"

text \<open>JavaScript truthiness of a \<open>string | null\<close> and of a \<open>number | null\<close>.\<close>

definition truthy_string :: "string option \<Rightarrow> bool" where
  "truthy_string v = (case v of None \<Rightarrow> False | Some str \<Rightarrow> str \<noteq> [])"

definition truthy_number :: "int option \<Rightarrow> bool" where
  "truthy_number v = (case v of None \<Rightarrow> False | Some n \<Rightarrow> n \<noteq> 0)"

subsection \<open>Event handlers\<close>

text \<open>The argument \<open>now\<close> of \<open>handleStart\<close> is the value of \<open>Date.now()\<close>.\<close>

definition handleStart :: "int \<Rightarrow> session \<Rightarrow> session" where
  "handleStart now s =
     (if length (filteredQuestions s) = 0 then s
      else let s1 = s\<lparr> isStarted := True, startTime := Some now \<rparr>
           in if truthy_number (timerDuration s)
              then s1\<lparr> timeRemaining := timerDuration s \<rparr> else s1)"

definition handleOptionClick :: "string \<Rightarrow> session \<Rightarrow> session" where
  "handleOptionClick optionId s =
     (if isSubmitted s then s else s\<lparr> selectedOptionId := Some optionId \<rparr>)"

definition handleSubmit :: "session \<Rightarrow> session" where
  "handleSubmit s =
     (if \<not> truthy_string (selectedOptionId s) then s
      else case (selectedOptionId s, currentQuestion s) of
        (Some sel, Some q) \<Rightarrow>
           s\<lparr> answers := answers s @
                 [\<lparr> questionId = question_id q, answerOptionId = sel,
                    isCorrect = (sel = correctOptionId q) \<rparr>],
              isSubmitted := True \<rparr>
      | _ \<Rightarrow> s)"

definition handleNext :: "session \<Rightarrow> session" where
  "handleNext s =
     (if currentIndex s < int (length (filteredQuestions s)) - 1
      then s\<lparr> currentIndex := currentIndex s + 1, selectedOptionId := None,
              isSubmitted := False \<rparr>
      else s\<lparr> isFinished := True \<rparr>)"

definition handleRestart :: "Question list \<Rightarrow> random_source \<Rightarrow> session \<Rightarrow> session" where
  "handleRestart bank rnd s =
     s\<lparr> allQuestions := sample bank rnd, currentIndex := 0, selectedOptionId := None,
        isSubmitted := False, answers := [], isFinished := False, isStarted := False,
        timeRemaining := None \<rparr>"

text \<open>The inline handlers of the view.\<close>

definition selectDifficulty :: "Difficulty filter_choice \<Rightarrow> session \<Rightarrow> session" where
  "selectDifficulty d s = s\<lparr> filterDifficulty := d, currentIndex := 0, answers := [] \<rparr>"

definition selectCategory :: "GrammarCategory filter_choice \<Rightarrow> session \<Rightarrow> session" where
  "selectCategory c s = s\<lparr> filterCategory := c, currentIndex := 0, answers := [] \<rparr>"

definition resetFilters :: "session \<Rightarrow> session" where
  "resetFilters s = s\<lparr> filterDifficulty := Everything, filterCategory := Everything \<rparr>"

subsection \<open>The timer effect\<close>

text \<open>
  The effect runs after every render in which \<open>isStarted\<close>, \<open>isFinished\<close> or
  \<open>timeRemaining\<close> changed. Its first branch installs the one-second interval
  (\<open>timerRunning\<close>), whose callback is \<open>intervalCallback\<close>; its second branch is the
  state change \<open>timerEffect\<close>. None of the three cells changes without a render, so the
  interval is installed exactly in the states where \<open>timerRunning\<close> holds.
\<close>

definition timerRunning :: "session \<Rightarrow> bool" where
  "timerRunning s =
     (isStarted s \<and> \<not> isFinished s \<and>
      (case timeRemaining s of None \<Rightarrow> False | Some t \<Rightarrow> t > 0))"

definition intervalCallback :: "session \<Rightarrow> session" where
  "intervalCallback s =
     s\<lparr> timeRemaining :=
          (case timeRemaining s of Some prev \<Rightarrow> Some (prev - 1) | None \<Rightarrow> None) \<rparr>"

definition timerEffect :: "session \<Rightarrow> session" where
  "timerEffect s =
     (if timerRunning s then s
      else if timeRemaining s = Some 0 \<and> \<not> isFinished s then s\<lparr> isFinished := True \<rparr>
      else s)"

subsection \<open>Derived values\<close>

definition score :: "session \<Rightarrow> nat" where
  "score s = length (filter isCorrect (answers s))"

definition total :: "session \<Rightarrow> nat" where
  "total s = length (filteredQuestions s)"

text \<open>\<open>Math.round(x)\<close> is \<open>floor (x + 1/2)\<close>.\<close>

definition math_round :: "real \<Rightarrow> int" where
  "math_round x = \<lfloor>x + 1 / 2\<rfloor>"

definition percentage_of :: "nat \<Rightarrow> nat \<Rightarrow> int" where
  "percentage_of sc tot = (if tot > 0 then math_round ((real sc / real tot) * 100) else 0)"

definition percentage :: "session \<Rightarrow> int" where
  "percentage s = percentage_of (score s) (total s)"

text \<open>
  The five feedback texts of \<open>getDetailedEvaluation\<close>, as the UTF-16 code units of the
  string literals of the source, in the order of its \<open>return\<close> statements.
\<close>

type_synonym utf16 = "nat list"

definition evaluation100 :: "utf16" where
  "evaluation100 =
    [0x5353, 0x8D8A, 0x7684, 0x8868, 0x73B0, 0xFF01, 0x4F60, 0x4E0D, 0x4EC5, 0x5C55,
     0x73B0, 0x4E86, 0x624E, 0x5B9E, 0x7684, 0x8BED, 0x6CD5, 0x529F, 0x5E95, 0xFF0C,
     0x66F4, 0x4F53, 0x73B0, 0x4E86, 0x5BF9, 0x82F1, 0x8BED, 0x903B, 0x8F91, 0x7ED3,
     0x6784, 0x7684, 0x6DF1, 0x523B, 0x7406, 0x89E3, 0x3002, 0x4ECE, 0x975E, 0x8C13,
     0x8BED, 0x52A8, 0x8BCD, 0x7684, 0x5FAE, 0x5999, 0x53D8, 0x5316, 0x5230, 0x590D,
     0x6742, 0x4ECE, 0x53E5, 0x7684, 0x7CBE, 0x51C6, 0x5F15, 0x5BFC, 0xFF0C, 0x4F60,
     0x90FD, 0x6E38, 0x5203, 0x6709, 0x4F59, 0x3002, 0x5EFA, 0x8BAE, 0x5F00, 0x59CB,
     0x5C1D, 0x8BD5, 0x9605, 0x8BFB, 0x539F, 0x7248, 0x5B66, 0x672F, 0x6587, 0x7AE0,
     0x6216, 0x6587, 0x5B66, 0x4F5C, 0x54C1, 0xFF0C, 0x8FDB, 0x4E00, 0x6B65, 0x63D0,
     0x5347, 0x8BED, 0x611F, 0x3002]"

definition evaluation85 :: "utf16" where
  "evaluation85 =
    [0x975E, 0x5E38, 0x4F18, 0x79C0, 0xFF01, 0x4F60, 0x5DF2, 0x7ECF, 0x6784, 0x5EFA,
     0x4E86, 0x5B8C, 0x6574, 0x7684, 0x8BED, 0x6CD5, 0x4F53, 0x7CFB, 0xFF0C, 0x80FD,
     0x591F, 0x51C6, 0x786E, 0x8FA8, 0x6790, 0x7EDD, 0x5927, 0x591A, 0x6570, 0x9AD8,
     0x9891, 0x8003, 0x70B9, 0x3002, 0x76EE, 0x524D, 0x7684, 0x5931, 0x5206, 0x70B9,
     0x53EF, 0x80FD, 0x96C6, 0x4E2D, 0x5728, 0x4E00, 0x4E9B, 0x6781, 0x5177, 0x8FF7,
     0x60D1, 0x6027, 0x7684, 0x7279, 0x6B8A, 0x7528, 0x6CD5, 0x6216, 0x957F, 0x96BE,
     0x53E5, 0x7684, 0x903B, 0x8F91, 0x62C6, 0x89E3, 0x4E0A, 0x3002, 0x5EFA, 0x8BAE,
     0x9488, 0x5BF9, 0x9519, 0x9898, 0x6240, 0x5C5E, 0x7684, 0x5206, 0x7C7B, 0xFF08,
     0x5982, 0x5B9A, 0x8BED, 0x4ECE, 0x53E5, 0x6216, 0x975E, 0x8C13, 0x8BED, 0xFF09,
     0x8FDB, 0x884C, 0x4E13, 0x9879, 0x6DF1, 0x5EA6, 0x590D, 0x4E60, 0xFF0C, 0x8FFD,
     0x6C42, 0x6781, 0x81F4, 0x7684, 0x4E25, 0x8C28, 0x3002]"

definition evaluation70 :: "utf16" where
  "evaluation70 =
    [0x8868, 0x73B0, 0x826F, 0x597D, 0x3002, 0x4F60, 0x5BF9, 0x6838, 0x5FC3, 0x8BED,
     0x6CD5, 0x89C4, 0x5219, 0x6709, 0x6E05, 0x6670, 0x7684, 0x8BA4, 0x8BC6, 0xFF0C,
     0x4F46, 0x5728, 0x5B9E, 0x9645, 0x5E94, 0x7528, 0x4E2D, 0x4ECD, 0x5B58, 0x5728,
     0x4E00, 0x5B9A, 0x7684, 0x601D, 0x7EF4, 0x76F2, 0x533A, 0xFF0C, 0x5C24, 0x5176,
     0x662F, 0x5728, 0x591A, 0x79CD, 0x8BED, 0x6CD5, 0x73B0, 0x8C61, 0x4EA4, 0x7EC7,
     0x7684, 0x60C5, 0x51B5, 0x4E0B, 0x5BB9, 0x6613, 0x6DF7, 0x6DC6, 0x3002, 0x5EFA,
     0x8BAE, 0x5728, 0x7EC3, 0x4E60, 0x65F6, 0x591A, 0x95EE, 0x81EA, 0x5DF1, 0x2018,
     0x4E3A, 0x4EC0, 0x4E48, 0x4E0D, 0x9009, 0x5176, 0x4ED6, 0x9879, 0x2019, 0xFF0C,
     0x901A, 0x8FC7, 0x6392, 0x9664, 0x6CD5, 0x5F3A, 0x5316, 0x5BF9, 0x5E72, 0x6270,
     0x9879, 0x7279, 0x5F81, 0x7684, 0x8BC6, 0x522B, 0x80FD, 0x529B, 0x3002]"

definition evaluation50 :: "utf16" where
  "evaluation50 =
    [0x57FA, 0x7840, 0x5C1A, 0x53EF, 0xFF0C, 0x4F46, 0x4ECD, 0x6709, 0x8F83, 0x5927,
     0x7684, 0x63D0, 0x5347, 0x7A7A, 0x95F4, 0x3002, 0x76EE, 0x524D, 0x7684, 0x5F97,
     0x5206, 0x53CD, 0x6620, 0x51FA, 0x4F60, 0x5728, 0x67D0, 0x4E9B, 0x5173, 0x952E,
     0x8003, 0x70B9, 0xFF08, 0x5982, 0x65F6, 0x6001, 0x8BED, 0x6001, 0x6216, 0x72B6,
     0x8BED, 0x4ECE, 0x53E5, 0xFF09, 0x4E0A, 0x5B58, 0x5728, 0x6982, 0x5FF5, 0x6A21,
     0x7CCA, 0x7684, 0x60C5, 0x51B5, 0x3002, 0x5EFA, 0x8BAE, 0x56DE, 0x5F52, 0x8BFE,
     0x672C, 0xFF0C, 0x7CFB, 0x7EDF, 0x6027, 0x5730, 0x68B3, 0x7406, 0x8BED, 0x6CD5,
     0x56FE, 0x8C31, 0xFF0C, 0x5E76, 0x7ED3, 0x5408, 0x672C, 0x6B21, 0x7EC3, 0x4E60,
     0x4E2D, 0x7684, 0x2018, 0x8BE6, 0x89E3, 0x5361, 0x7247, 0x2019, 0x8FDB, 0x884C,
     0x9488, 0x5BF9, 0x6027, 0x5DE9, 0x56FA, 0xFF0C, 0x5EFA, 0x7ACB, 0x66F4, 0x7A33,
     0x56FA, 0x7684, 0x77E5, 0x8BC6, 0x8FDE, 0x63A5, 0x3002]"

definition evaluationBelow50 :: "utf16" where
  "evaluationBelow50 =
    [0x76EE, 0x524D, 0x7684, 0x6210, 0x7EE9, 0x63D0, 0x9192, 0x4F60, 0x9700, 0x8981,
     0x91CD, 0x65B0, 0x5BA1, 0x89C6, 0x81EA, 0x5DF1, 0x7684, 0x5B66, 0x4E60, 0x7B56,
     0x7565, 0x3002, 0x8BED, 0x6CD5, 0x662F, 0x8BED, 0x8A00, 0x7684, 0x9AA8, 0x67B6,
     0xFF0C, 0x57FA, 0x7840, 0x4E0D, 0x7262, 0x4F1A, 0x76F4, 0x63A5, 0x9650, 0x5236,
     0x9605, 0x8BFB, 0x548C, 0x5199, 0x4F5C, 0x80FD, 0x529B, 0x7684, 0x63D0, 0x5347,
     0x3002, 0x4E0D, 0x8981, 0x88AB, 0x632B, 0x6298, 0x6253, 0x8D25, 0xFF0C, 0x5EFA,
     0x8BAE, 0x4ECE, 0x6700, 0x57FA, 0x7840, 0x7684, 0x7B80, 0x5355, 0x53E5, 0x7ED3,
     0x6784, 0x5F00, 0x59CB, 0x590D, 0x4E60, 0xFF0C, 0x6BCF, 0x5929, 0x575A, 0x6301,
     0x5B8C, 0x6210, 0x4E00, 0x7EC4, 0x0032, 0x0030, 0x9898, 0x7684, 0x7EC3, 0x4E60,
     0xFF0C, 0x5E76, 0x9010, 0x4E00, 0x6D88, 0x5316, 0x89E3, 0x6790, 0x5185, 0x5BB9,
     0x3002, 0x575A, 0x6301, 0x4E00, 0x4E2A, 0x6708, 0xFF0C, 0x4F60, 0x4E00, 0x5B9A,
     0x4F1A, 0x770B, 0x5230, 0x8D28, 0x7684, 0x98DE, 0x8DC3, 0x3002]"

definition getDetailedEvaluation :: "real \<Rightarrow> utf16" where
  "getDetailedEvaluation p =
     (if p = 100 then evaluation100
      else if p \<ge> 85 then evaluation85
      else if p \<ge> 70 then evaluation70
      else if p \<ge> 50 then evaluation50
      else evaluationBelow50)"

subsection \<open>Views and the events each view offers\<close>

text \<open>
  The component renders one of four views, chosen by the early returns of \<open>App\<close> in
  this order.
\<close>

datatype view = Home | Results | Empty | QuestionView

definition view_of :: "session \<Rightarrow> view" where
  "view_of s =
     (if \<not> isStarted s then Home
      else if isFinished s then Results
      else if length (filteredQuestions s) = 0 then Empty
      else QuestionView)"

text \<open>
  An event is a click on a control of the current view, or a tick of the interval.
  \<open>enabled\<close> says which controls the view renders and does not disable:
  the difficulty, timer and start buttons of the home page (the start button carries
  \<open>disabled\<close> when nothing matches the filters; the timer buttons offer no timer, 120,
  300 and 600 seconds), the restart button of the results page, the reset button of the
  empty page, and on the question page the option buttons of the current question
  (\<open>disabled\<close> once submitted), the submit button (rendered while not submitted,
  \<open>disabled\<close> without a selection), the next button (rendered once submitted) and the
  two filter selects.
\<close>

datatype event =
    ClickDifficulty "Difficulty filter_choice"
  | ClickTimer "int option"
  | ClickStart int
  | ClickOption string
  | ClickSubmit
  | ClickNext
  | SelectDifficulty "Difficulty filter_choice"
  | SelectCategory "GrammarCategory filter_choice"
  | ClickResetFilters
  | ClickRestart random_source
  | Tick

definition option_ids :: "session \<Rightarrow> string set" where
  "option_ids s =
     (case currentQuestion s of None \<Rightarrow> {} | Some q \<Rightarrow> set (map option_id (options q)))"

fun enabled :: "session \<Rightarrow> event \<Rightarrow> bool" where
  "enabled s (ClickDifficulty d) = (view_of s = Home)"
| "enabled s (ClickTimer t) =
     (view_of s = Home \<and> t \<in> {None, Some 120, Some 300, Some 600})"
| "enabled s (ClickStart now) = (view_of s = Home \<and> length (filteredQuestions s) \<noteq> 0)"
| "enabled s (ClickOption optionId) =
     (view_of s = QuestionView \<and> optionId \<in> option_ids s \<and> \<not> isSubmitted s)"
| "enabled s ClickSubmit =
     (view_of s = QuestionView \<and> \<not> isSubmitted s \<and> truthy_string (selectedOptionId s))"
| "enabled s ClickNext = (view_of s = QuestionView \<and> isSubmitted s)"
| "enabled s (SelectDifficulty d) = (view_of s = QuestionView)"
| "enabled s (SelectCategory c) = (view_of s = QuestionView)"
| "enabled s ClickResetFilters = (view_of s = Empty)"
| "enabled s (ClickRestart rnd) = (view_of s = Results \<and> valid_rnd rnd)"
| "enabled s Tick = timerRunning s"

fun handler :: "Question list \<Rightarrow> event \<Rightarrow> session \<Rightarrow> session" where
  "handler bank (ClickDifficulty d) s = s\<lparr> filterDifficulty := d \<rparr>"
| "handler bank (ClickTimer t) s = s\<lparr> timerDuration := t \<rparr>"
| "handler bank (ClickStart now) s = handleStart now s"
| "handler bank (ClickOption optionId) s = handleOptionClick optionId s"
| "handler bank ClickSubmit s = handleSubmit s"
| "handler bank ClickNext s = handleNext s"
| "handler bank (SelectDifficulty d) s = selectDifficulty d s"
| "handler bank (SelectCategory c) s = selectCategory c s"
| "handler bank ClickResetFilters s = resetFilters s"
| "handler bank (ClickRestart rnd) s = handleRestart bank rnd s"
| "handler bank Tick s = intervalCallback s"

text \<open>One event: its handler, the render, and then the effect.\<close>

definition fire :: "Question list \<Rightarrow> event \<Rightarrow> session \<Rightarrow> session" where
  "fire bank e s = timerEffect (handler bank e s)"

text \<open>
  A click on a control, or a tick. The handler runs if the view renders the control and
  does not disable it (for a tick, if the interval is installed); a control that is
  absent or disabled cannot be clicked, and then the session stays as it is. The
  transitions of the session controller are these clicks: \<open>submit()\<close> is
  \<open>click bank ClickSubmit\<close>.
\<close>

definition click :: "Question list \<Rightarrow> event \<Rightarrow> session \<Rightarrow> session" where
  "click bank e s = (if enabled s e then fire bank e s else s)"

text \<open>
  The reachable sessions: the one the component mounts with, and every session an
  enabled event leads to.
\<close>

inductive reachable :: "Question list \<Rightarrow> session \<Rightarrow> bool" for bank :: "Question list" where
  mount: "valid_rnd rnd \<Longrightarrow> reachable bank (initialSession bank rnd)"
| event: "reachable bank s \<Longrightarrow> enabled s e \<Longrightarrow> reachable bank (fire bank e s)"

section \<open>Invariant and example sessions\<close>

text \<open>
  The invariant of the reachable sessions: the index is non-negative and inside a
  non-empty filtered set; with an empty filtered set, and on the home page, there is no
  progress; there is at most one answer per question met so far; the timer duration is
  one the home page offers; and a session whose time has run out is finished.
\<close>

definition session_inv :: "session \<Rightarrow> bool" where
  "session_inv s \<longleftrightarrow>
     0 \<le> currentIndex s \<and>
     (filteredQuestions s \<noteq> [] \<longrightarrow> currentIndex s < int (length (filteredQuestions s))) \<and>
     (filteredQuestions s = [] \<longrightarrow> currentIndex s = 0 \<and> answers s = []) \<and>
     int (length (answers s)) \<le> currentIndex s + (if isSubmitted s then 1 else 0) \<and>
     (\<not> isStarted s \<longrightarrow>
        currentIndex s = 0 \<and> answers s = [] \<and> \<not> isFinished s \<and> timeRemaining s = None) \<and>
     timerDuration s \<in> {None, Some 120, Some 300, Some 600} \<and>
     (timeRemaining s = Some 0 \<longrightarrow> isFinished s)"

text \<open>A bank in which no option has the empty string for its id.\<close>

definition option_ids_nonempty :: "Question list \<Rightarrow> bool" where
  "option_ids_nonempty bank \<longleftrightarrow>
     (\<forall>q \<in> set bank. \<forall>opt \<in> set (options q). option_id opt \<noteq> [])"

text \<open>
  A bank of two questions and the sessions reached from it: mounted, started, with the
  wrong option selected, submitted, with a filter that matches nothing, and with a
  timer of 120 seconds chosen on the home page.
\<close>

definition exExplanation :: Explanation where
  "exExplanation = \<lparr> correctAnswer = ''to go'', grammar_rule = ''rule'', example_text = ''example'',
     commonMistake = ''mistake'', reviewLink = None \<rparr>"

definition exOptions :: "QOption list" where
  "exOptions = [\<lparr> option_id = ''a'', option_text = ''to go'' \<rparr>,
                \<lparr> option_id = ''b'', option_text = ''going'' \<rparr>]"

definition exQ1 :: Question where
  "exQ1 = \<lparr> question_id = 1, sentence = ''first'', options = exOptions,
     correctOptionId = ''a'', difficulty = Beginner, category = Tense,
     explanation = exExplanation \<rparr>"

definition exQ2 :: Question where
  "exQ2 = \<lparr> question_id = 2, sentence = ''second'', options = exOptions,
     correctOptionId = ''b'', difficulty = Advanced, category = NonFinite,
     explanation = exExplanation \<rparr>"

definition exBank :: "Question list" where
  "exBank = [exQ1, exQ2]"

definition exRnd :: random_source where
  "exRnd = (\<lambda>k n. n div 2)"

definition exHome :: session where
  "exHome = initialSession exBank exRnd"

definition exStarted :: session where
  "exStarted = fire exBank (ClickStart 1000) exHome"

definition exSelected :: session where
  "exSelected = fire exBank (ClickOption ''b'') exStarted"

definition exSubmitted :: session where
  "exSubmitted = fire exBank ClickSubmit exSelected"

definition exEmpty :: session where
  "exEmpty = fire exBank (SelectDifficulty (Only Intermediate)) exStarted"

definition exTimerHome :: session where
  "exTimerHome = fire exBank (ClickTimer (Some 120)) exHome"

definition exNoBank :: session where
  "exNoBank = initialSession [] exRnd"

section \<open>The Fisher-Yates shuffle as the specification words it\<close>

text \<open>
  The algorithm in the words of the specification, to be compared with \<open>shuffleArray\<close>:
  "for i from last index down to 1, pick random j in [0,i], swap elements i and j".
  The picks are given as a list, the pick for the last index first. \<open>valid_picks js i\<close>
  says that \<open>js\<close> holds one pick for each index from \<open>i\<close> down to 1, each within
  \<open>[0, index]\<close>; \<open>picks rnd k i\<close> are the picks that \<open>shuffleArray\<close> draws with the
  calls \<open>k\<close>, \<open>k + 1\<close>, ... of \<open>Math.random()\<close>.
\<close>

fun fisher_yates :: "nat list \<Rightarrow> nat \<Rightarrow> 'a list \<Rightarrow> 'a list" where
  "fisher_yates (j # js) (Suc i) a = fisher_yates js i (swap (Suc i) j a)"
| "fisher_yates js i a = a"

fun valid_picks :: "nat list \<Rightarrow> nat \<Rightarrow> bool" where
  "valid_picks [] 0 = True"
| "valid_picks (j # js) (Suc i) = (j \<le> Suc i \<and> valid_picks js i)"
| "valid_picks js i = False"

fun picks :: "random_source \<Rightarrow> nat \<Rightarrow> nat \<Rightarrow> nat list" where
  "picks rnd k 0 = []"
| "picks rnd k (Suc i) = rnd k (Suc i + 1) # picks rnd (Suc k) i"

section \<open>Lemmas\<close>

subsection \<open>The invariant holds in every reachable session\<close>

lemma filteredQuestions_cong:
  "allQuestions s' = allQuestions s \<Longrightarrow> filterDifficulty s' = filterDifficulty s \<Longrightarrow>
   filterCategory s' = filterCategory s \<Longrightarrow> filteredQuestions s' = filteredQuestions s"
  by (simp add: filteredQuestions_def)

lemma timerEffect_cases:
  "timerEffect s = s \<or> timerEffect s = s\<lparr> isFinished := True \<rparr>"
  by (simp add: timerEffect_def)

lemma filteredQuestions_timerEffect [simp]:
  "filteredQuestions (timerEffect s) = filteredQuestions s"
  by (simp add: timerEffect_def filteredQuestions_def)

lemma session_inv_timerEffect:
  assumes "0 \<le> currentIndex s"
    "filteredQuestions s \<noteq> [] \<longrightarrow> currentIndex s < int (length (filteredQuestions s))"
    "filteredQuestions s = [] \<longrightarrow> currentIndex s = 0 \<and> answers s = []"
    "int (length (answers s)) \<le> currentIndex s + (if isSubmitted s then 1 else 0)"
    "\<not> isStarted s \<longrightarrow>
        currentIndex s = 0 \<and> answers s = [] \<and> \<not> isFinished s \<and> timeRemaining s = None"
    "timerDuration s \<in> {None, Some 120, Some 300, Some 600}"
  shows "session_inv (timerEffect s)"
  using assms unfolding session_inv_def
  by (auto simp: timerEffect_def timerRunning_def filteredQuestions_def split: option.splits)

lemma session_inv_mount: "session_inv (initialSession bank rnd)"
  by (simp add: session_inv_def initialSession_def)

lemma session_inv_fire:
  assumes "session_inv s" "enabled s e"
  shows "session_inv (fire bank e s)"
proof (cases e)
  case (ClickDifficulty d)
  then show ?thesis using assms unfolding fire_def
    by (intro session_inv_timerEffect) (auto simp: session_inv_def view_of_def filteredQuestions_def split: if_splits)
next
  case (ClickTimer t)
  then show ?thesis using assms unfolding fire_def
    by (intro session_inv_timerEffect) (auto simp: session_inv_def view_of_def filteredQuestions_def split: if_splits)
next
  case (ClickStart now)
  then show ?thesis using assms unfolding fire_def
    by (intro session_inv_timerEffect)
       (auto simp: session_inv_def view_of_def filteredQuestions_def handleStart_def Let_def split: if_splits)
next
  case (ClickOption x4)
  then show ?thesis using assms unfolding fire_def
    by (intro session_inv_timerEffect)
       (auto simp: session_inv_def view_of_def filteredQuestions_def handleOptionClick_def split: if_splits)
next
  case ClickSubmit
  then show ?thesis using assms unfolding fire_def
    by (intro session_inv_timerEffect)
       (auto simp: session_inv_def view_of_def filteredQuestions_def handleSubmit_def
          currentQuestion_def split: option.splits if_splits)
next
  case ClickNext
  then show ?thesis using assms unfolding fire_def
    by (intro session_inv_timerEffect)
       (auto simp: session_inv_def view_of_def filteredQuestions_def handleNext_def split: if_splits)
next
  case (SelectDifficulty x7)
  then show ?thesis using assms unfolding fire_def
    by (intro session_inv_timerEffect)
       (auto simp: session_inv_def view_of_def filteredQuestions_def selectDifficulty_def split: if_splits)
next
  case (SelectCategory x8)
  then show ?thesis using assms unfolding fire_def
    by (intro session_inv_timerEffect)
       (auto simp: session_inv_def view_of_def filteredQuestions_def selectCategory_def split: if_splits)
next
  case ClickResetFilters
  then show ?thesis using assms unfolding fire_def
    by (intro session_inv_timerEffect)
       (auto simp: session_inv_def view_of_def filteredQuestions_def resetFilters_def split: if_splits)
next
  case (ClickRestart x10)
  then show ?thesis using assms unfolding fire_def
    by (intro session_inv_timerEffect)
       (auto simp: session_inv_def view_of_def filteredQuestions_def handleRestart_def split: if_splits)
next
  case Tick
  then show ?thesis using assms unfolding fire_def
    by (intro session_inv_timerEffect)
       (auto simp: session_inv_def view_of_def filteredQuestions_def intervalCallback_def timerRunning_def split: option.splits if_splits)
qed

lemma reachable_inv: "reachable bank s \<Longrightarrow> session_inv s"
  by (induction rule: reachable.induct) (simp_all add: session_inv_mount session_inv_fire)


subsection \<open>The example sessions\<close>

lemma valid_exRnd: "valid_rnd exRnd"
  by (simp add: valid_rnd_def exRnd_def)

lemma sample_exBank: "sample exBank exRnd = [exQ1, exQ2]"
  by (simp add: sample_def exBank_def exRnd_def shuffleArray_def swap_def)

lemma exHome_eq:
  "exHome = \<lparr> isStarted = False, currentIndex = 0, selectedOptionId = None,
       isSubmitted = False, answers = [], isFinished = False, filterDifficulty = Everything,
       filterCategory = Everything, timerDuration = None, timeRemaining = None,
       startTime = None, allQuestions = [exQ1, exQ2] \<rparr>"
  by (simp add: exHome_def initialSession_def sample_exBank)

lemma exStarted_eq:
  "exStarted = \<lparr> isStarted = True, currentIndex = 0, selectedOptionId = None,
       isSubmitted = False, answers = [], isFinished = False, filterDifficulty = Everything,
       filterCategory = Everything, timerDuration = None, timeRemaining = None,
       startTime = Some 1000, allQuestions = [exQ1, exQ2] \<rparr>"
  by (simp add: exStarted_def exHome_eq fire_def handleStart_def filteredQuestions_def
      matches_def truthy_number_def timerEffect_def timerRunning_def)

lemma exSelected_eq:
  "exSelected = \<lparr> isStarted = True, currentIndex = 0, selectedOptionId = Some ''b'',
       isSubmitted = False, answers = [], isFinished = False, filterDifficulty = Everything,
       filterCategory = Everything, timerDuration = None, timeRemaining = None,
       startTime = Some 1000, allQuestions = [exQ1, exQ2] \<rparr>"
  by (simp add: exSelected_def exStarted_eq fire_def handleOptionClick_def
      timerEffect_def timerRunning_def)

lemma exSubmitted_eq:
  "exSubmitted = \<lparr> isStarted = True, currentIndex = 0, selectedOptionId = Some ''b'',
       isSubmitted = True,
       answers = [\<lparr> questionId = 1, answerOptionId = ''b'', isCorrect = False \<rparr>],
       isFinished = False, filterDifficulty = Everything,
       filterCategory = Everything, timerDuration = None, timeRemaining = None,
       startTime = Some 1000, allQuestions = [exQ1, exQ2] \<rparr>"
  by (simp add: exSubmitted_def exSelected_eq fire_def handleSubmit_def truthy_string_def
      currentQuestion_def filteredQuestions_def matches_def exQ1_def
      timerEffect_def timerRunning_def)

lemma reachable_exHome: "reachable exBank exHome"
  unfolding exHome_def by (rule reachable.mount) (rule valid_exRnd)

lemma reachable_exStarted: "reachable exBank exStarted"
  unfolding exStarted_def
  by (rule reachable.event [OF reachable_exHome])
     (simp add: exHome_eq view_of_def filteredQuestions_def matches_def)

lemma reachable_exSelected: "reachable exBank exSelected"
  unfolding exSelected_def
  by (rule reachable.event [OF reachable_exStarted])
     (simp add: exStarted_eq view_of_def filteredQuestions_def matches_def option_ids_def
        currentQuestion_def exQ1_def exOptions_def)

lemma reachable_exSubmitted: "reachable exBank exSubmitted"
  unfolding exSubmitted_def
  by (rule reachable.event [OF reachable_exSelected])
     (simp add: exSelected_eq view_of_def filteredQuestions_def matches_def truthy_string_def)


lemma exEmpty_eq:
  "exEmpty = \<lparr> isStarted = True, currentIndex = 0, selectedOptionId = None,
       isSubmitted = False, answers = [], isFinished = False,
       filterDifficulty = Only Intermediate,
       filterCategory = Everything, timerDuration = None, timeRemaining = None,
       startTime = Some 1000, allQuestions = [exQ1, exQ2] \<rparr>"
  by (simp add: exEmpty_def exStarted_eq fire_def selectDifficulty_def
      timerEffect_def timerRunning_def)

lemma filteredQuestions_exEmpty: "filteredQuestions exEmpty = []"
  by (simp add: exEmpty_eq filteredQuestions_def matches_def exQ1_def exQ2_def)

lemma reachable_exEmpty: "reachable exBank exEmpty"
  unfolding exEmpty_def
  by (rule reachable.event [OF reachable_exStarted])
     (simp add: exStarted_eq view_of_def filteredQuestions_def matches_def)

lemma exTimerHome_eq:
  "exTimerHome = \<lparr> isStarted = False, currentIndex = 0, selectedOptionId = None,
       isSubmitted = False, answers = [], isFinished = False, filterDifficulty = Everything,
       filterCategory = Everything, timerDuration = Some 120, timeRemaining = None,
       startTime = None, allQuestions = [exQ1, exQ2] \<rparr>"
  by (simp add: exTimerHome_def exHome_eq fire_def timerEffect_def timerRunning_def)

lemma reachable_exTimerHome: "reachable exBank exTimerHome"
  unfolding exTimerHome_def
  by (rule reachable.event [OF reachable_exHome]) (simp add: exHome_eq view_of_def)

lemma filteredQuestions_exTimerHome: "filteredQuestions exTimerHome = [exQ1, exQ2]"
  by (simp add: exTimerHome_eq filteredQuestions_def matches_def)

lemma filteredQuestions_exNoBank: "filteredQuestions exNoBank = []"
  by (simp add: exNoBank_def initialSession_def filteredQuestions_def sample_def
      shuffleArray_def)

lemma timerEffect_fields [simp]:
  "isStarted (timerEffect s) = isStarted s"
  "currentIndex (timerEffect s) = currentIndex s"
  "selectedOptionId (timerEffect s) = selectedOptionId s"
  "isSubmitted (timerEffect s) = isSubmitted s"
  "answers (timerEffect s) = answers s"
  "filterDifficulty (timerEffect s) = filterDifficulty s"
  "filterCategory (timerEffect s) = filterCategory s"
  "timerDuration (timerEffect s) = timerDuration s"
  "timeRemaining (timerEffect s) = timeRemaining s"
  "startTime (timerEffect s) = startTime s"
  "allQuestions (timerEffect s) = allQuestions s"
  by (simp_all add: timerEffect_def)

lemma currentQuestion_timerEffect [simp]:
  "currentQuestion (timerEffect s) = currentQuestion s"
  by (simp add: currentQuestion_def)

lemma question_view_has_question:
  assumes "session_inv s" "view_of s = QuestionView"
  shows "\<exists>q. currentQuestion s = Some q"
  using assms by (auto simp: session_inv_def view_of_def currentQuestion_def split: if_splits)

subsection \<open>The shuffle keeps the length and the elements\<close>

lemma length_swap [simp]: "length (swap i j a) = length a"
  by (simp add: swap_def)

lemma mset_swap_in_range: "i < length a \<Longrightarrow> j < length a \<Longrightarrow> mset (swap i j a) = mset a"
  unfolding swap_def by (rule mset_swap)

lemma valid_rnd_le: "valid_rnd rnd \<Longrightarrow> rnd k (Suc i + 1) \<le> Suc i"
proof -
  assume "valid_rnd rnd"
  then have "rnd k (Suc i + 1) < Suc i + 1" by (simp add: valid_rnd_def)
  then show ?thesis by simp
qed

lemma length_shuffle_loop [simp]: "length (shuffle_loop rnd k i a) = length a"
  by (induction i arbitrary: k a) (simp_all add: Let_def)

lemma length_shuffleArray [simp]: "length (shuffleArray rnd xs) = length xs"
  by (simp add: shuffleArray_def)

lemma mset_shuffle_loop:
  "valid_rnd rnd \<Longrightarrow> i < length a \<Longrightarrow> mset (shuffle_loop rnd k i a) = mset a"
proof (induction i arbitrary: k a)
  case 0
  then show ?case by simp
next
  case (Suc i)
  have j: "rnd k (Suc i + 1) \<le> Suc i"
    using Suc.prems(1) by (rule valid_rnd_le)
  have "mset (swap (Suc i) (rnd k (Suc i + 1)) a) = mset a"
    using Suc.prems(2) j by (intro mset_swap_in_range) simp_all
  then show ?case using Suc by (simp add: Let_def)
qed

lemma mset_shuffleArray: "valid_rnd rnd \<Longrightarrow> mset (shuffleArray rnd xs) = mset xs"
proof (cases xs)
  case Nil
  then show ?thesis by (simp add: shuffleArray_def)
next
  case (Cons x xs')
  assume "valid_rnd rnd"
  then show ?thesis unfolding shuffleArray_def
    by (intro mset_shuffle_loop) (simp_all add: Cons)
qed

lemma length_sample: "length (sample bank rnd) = min (length bank) 20"
  by (simp add: sample_def)

lemma mset_sample: "valid_rnd rnd \<Longrightarrow> mset (sample bank rnd) \<subseteq># mset bank"
proof -
  assume v: "valid_rnd rnd"
  have "mset (take 20 (shuffleArray rnd bank)) \<subseteq># mset (shuffleArray rnd bank)"
    by (metis append_take_drop_id mset_append mset_subset_eq_add_left)
  then show ?thesis unfolding sample_def mset_shuffleArray [OF v] .
qed

subsection \<open>The working set of a reachable session\<close>

lemma allQuestions_fire:
  "allQuestions (fire bank e s) =
     (case e of ClickRestart rnd \<Rightarrow> sample bank rnd | _ \<Rightarrow> allQuestions s)"
  by (cases e)
     (simp_all add: fire_def handleStart_def handleOptionClick_def handleSubmit_def
        handleNext_def selectDifficulty_def selectCategory_def resetFilters_def
        handleRestart_def intervalCallback_def Let_def split: option.splits)

lemma reachable_sampled:
  "reachable bank s \<Longrightarrow> \<exists>rnd. valid_rnd rnd \<and> allQuestions s = sample bank rnd"
proof (induction rule: reachable.induct)
  case (mount rnd)
  then show ?case by (auto simp: initialSession_def)
next
  case (event s e)
  then show ?case by (cases e) (auto simp: allQuestions_fire)
qed

subsection \<open>Percentages and feedback texts\<close>

lemma evaluation_texts_distinct:
  "distinct [evaluation100, evaluation85, evaluation70, evaluation50, evaluationBelow50]"
  by (simp add: evaluation100_def evaluation85_def evaluation70_def evaluation50_def
      evaluationBelow50_def)

lemma percentage_of_range:
  assumes "sc \<le> tot"
  shows "0 \<le> percentage_of sc tot \<and> percentage_of sc tot \<le> 100"
proof (cases "tot > 0")
  case True
  have "real sc / real tot \<le> 1" using assms True by simp
  then have "real sc / real tot * 100 + 1 / 2 \<le> 100 + 1 / 2" by simp
  then have "\<lfloor>real sc / real tot * 100 + 1 / 2\<rfloor> \<le> \<lfloor>(100 + 1 / 2 :: real)\<rfloor>"
    by (rule floor_mono)
  moreover have "\<lfloor>(100 + 1 / 2 :: real)\<rfloor> = 100" by simp
  moreover have "0 \<le> \<lfloor>real sc / real tot * 100 + 1 / 2\<rfloor>" by simp
  ultimately show ?thesis using True by (simp add: percentage_of_def math_round_def)
next
  case False
  then show ?thesis by (simp add: percentage_of_def)
qed

subsection \<open>Ticks of the timer\<close>

lemma tick_step:
  assumes "timerRunning s" "timeRemaining s = Some t"
  shows "timeRemaining (fire bank Tick s) = Some (t - 1)"
    and "isFinished (fire bank Tick s) \<longleftrightarrow> t = 1"
    and "answers (fire bank Tick s) = answers s"
    and "isStarted (fire bank Tick s)"
    and "filteredQuestions (fire bank Tick s) = filteredQuestions s"
  using assms
  by (auto simp: fire_def intervalCallback_def timerEffect_def timerRunning_def
      filteredQuestions_def)

lemma ticks_countdown:
  assumes "isStarted s" "\<not> isFinished s" "timeRemaining s = Some (int n)" "k < n"
  shows "timerRunning ((fire bank Tick ^^ k) s) \<and>
         timeRemaining ((fire bank Tick ^^ k) s) = Some (int n - int k) \<and>
         answers ((fire bank Tick ^^ k) s) = answers s \<and>
         filteredQuestions ((fire bank Tick ^^ k) s) = filteredQuestions s"
  using assms(4)
proof (induction k)
  case 0
  then show ?case using assms(1-3) by (simp add: timerRunning_def)
next
  case (Suc k)
  let ?s = "(fire bank Tick ^^ k) s"
  have ih: "timerRunning ?s" "timeRemaining ?s = Some (int n - int k)"
    "answers ?s = answers s" "filteredQuestions ?s = filteredQuestions s"
    using Suc by simp_all
  have ne: "int n - int k \<noteq> 1" using Suc.prems by linarith
  have "timeRemaining (fire bank Tick ?s) = Some (int n - int k - 1)"
    "\<not> isFinished (fire bank Tick ?s)" "isStarted (fire bank Tick ?s)"
    "answers (fire bank Tick ?s) = answers s"
    "filteredQuestions (fire bank Tick ?s) = filteredQuestions s"
    using tick_step [OF ih(1,2), of bank] ne ih(3,4) by simp_all
  moreover have "int n - int k - 1 > 0" using Suc.prems by linarith
  ultimately show ?case by (simp add: timerRunning_def)
qed

lemma ticks_expire:
  assumes "isStarted s" "\<not> isFinished s" "timeRemaining s = Some (int n)" "0 < n"
  shows "isFinished ((fire bank Tick ^^ n) s) \<and>
         isStarted ((fire bank Tick ^^ n) s) \<and>
         timeRemaining ((fire bank Tick ^^ n) s) = Some 0 \<and>
         answers ((fire bank Tick ^^ n) s) = answers s"
proof -
  obtain m where n: "n = Suc m" using assms(4) by (cases n) simp_all
  let ?s = "(fire bank Tick ^^ m) s"
  have c: "timerRunning ?s" "timeRemaining ?s = Some 1" "answers ?s = answers s"
    using ticks_countdown [OF assms(1-3), of m bank] n by simp_all
  show ?thesis using tick_step [OF c(1,2), of bank] c(3) n by simp
qed

subsection \<open>The shuffle and its picks\<close>

text \<open>
  \<open>shuffleArray\<close> is the loop of the specification run on the picks it draws
  (\<open>shuffleArray_fisher_yates\<close>); the picks are in range (\<open>valid_picks_picks\<close>), so the
  result is a permutation of the input (\<open>mset_shuffleArray\<close>), and the loop moves
  positions without looking at the elements (\<open>shuffleArray_positions\<close>). Each
  permutation of a list of distinct elements is the result of exactly one list of picks
  in range (\<open>fisher_yates_bij\<close>). How likely each list of picks is depends on the
  values of \<open>Math.random()\<close> and on the rounding of the double product, which lie
  outside this model; no statement about probabilities is made.
\<close>

lemma valid_picks_0 [simp]: "valid_picks js 0 \<longleftrightarrow> js = []"
  by (cases js) simp_all

lemma valid_picks_Suc:
  "valid_picks js (Suc i) \<longleftrightarrow> (\<exists>j js'. js = j # js' \<and> j \<le> Suc i \<and> valid_picks js' i)"
  by (cases js) simp_all

lemma shuffle_loop_fisher_yates:
  "shuffle_loop rnd k i a = fisher_yates (picks rnd k i) i a"
  by (induction i arbitrary: k a) (simp_all add: Let_def)

lemma valid_picks_picks: "valid_rnd rnd \<Longrightarrow> valid_picks (picks rnd k i) i"
proof (induction i arbitrary: k)
  case 0
  then show ?case by simp
next
  case (Suc i)
  have "rnd k (Suc i + 1) \<le> Suc i"
    using Suc.prems by (rule valid_rnd_le)
  then show ?case using Suc by simp
qed

lemma length_fisher_yates [simp]: "length (fisher_yates js i a) = length a"
  by (induction js i a rule: fisher_yates.induct) simp_all

lemma swap_nth_other: "p \<noteq> i \<Longrightarrow> p \<noteq> j \<Longrightarrow> swap i j a ! p = a ! p"
  by (simp add: swap_def)

lemma swap_nth_first: "i < length a \<Longrightarrow> j < length a \<Longrightarrow> swap i j a ! i = a ! j"
  by (cases "i = j") (simp_all add: swap_def)

lemma fisher_yates_above:
  "valid_picks js i \<Longrightarrow> i < p \<Longrightarrow> fisher_yates js i a ! p = a ! p"
proof (induction js i arbitrary: a rule: valid_picks.induct)
  case (2 j js i)
  then have "fisher_yates js i (swap (Suc i) j a) ! p = swap (Suc i) j a ! p"
    by simp
  also have "\<dots> = a ! p"
    using "2.prems" by (intro swap_nth_other) auto
  finally show ?case by simp
qed simp_all

lemma mset_fisher_yates:
  "valid_picks js i \<Longrightarrow> i < length a \<Longrightarrow> mset (fisher_yates js i a) = mset a"
proof (induction js i arbitrary: a rule: valid_picks.induct)
  case (2 j js i)
  have "mset (swap (Suc i) j a) = mset a"
    using "2.prems" by (intro mset_swap_in_range) auto
  then show ?case using 2 by simp
qed simp_all

lemma fisher_yates_top:
  assumes "valid_picks (j # js) (Suc i)" "Suc i < length a"
  shows "fisher_yates (j # js) (Suc i) a ! Suc i = a ! j"
proof -
  have "fisher_yates js i (swap (Suc i) j a) ! Suc i = swap (Suc i) j a ! Suc i"
    using assms by (intro fisher_yates_above) simp_all
  also have "\<dots> = a ! j"
    using assms by (intro swap_nth_first) simp_all
  finally show ?thesis by simp
qed

lemma distinct_swap:
  "distinct a \<Longrightarrow> i < length a \<Longrightarrow> j < length a \<Longrightarrow> distinct (swap i j a)"
  using mset_swap_in_range [of i a j] mset_eq_imp_distinct_iff by blast

lemma fisher_yates_inj:
  "distinct a \<Longrightarrow> i < length a \<Longrightarrow> valid_picks js i \<Longrightarrow> valid_picks js' i \<Longrightarrow>
   fisher_yates js i a = fisher_yates js' i a \<Longrightarrow> js = js'"
proof (induction i arbitrary: js js' a)
  case 0
  then show ?case by simp
next
  case (Suc i)
  from Suc.prems(3) obtain j js0 where js: "js = j # js0" "j \<le> Suc i" "valid_picks js0 i"
    by (auto simp: valid_picks_Suc)
  from Suc.prems(4) obtain j' js0' where js': "js' = j' # js0'" "j' \<le> Suc i" "valid_picks js0' i"
    by (auto simp: valid_picks_Suc)
  have "fisher_yates js (Suc i) a ! Suc i = a ! j"
    unfolding js(1) using js Suc.prems(2) by (intro fisher_yates_top) simp_all
  moreover have "fisher_yates js' (Suc i) a ! Suc i = a ! j'"
    unfolding js'(1) using js' Suc.prems(2) by (intro fisher_yates_top) simp_all
  ultimately have "a ! j = a ! j'" using Suc.prems(5) by simp
  then have jj: "j = j'"
    using Suc.prems(1,2) js(2) js'(2) by (simp add: nth_eq_iff_index_eq)
  have d: "distinct (swap (Suc i) j a)"
    using Suc.prems(1,2) js(2) by (intro distinct_swap) simp_all
  have "fisher_yates js0 i (swap (Suc i) j a) = fisher_yates js0' i (swap (Suc i) j a)"
    using Suc.prems(5) js(1) js'(1) jj by simp
  then have "js0 = js0'"
    using Suc.IH [OF d _ js(3) js'(3)] Suc.prems(2) by simp
  then show ?case using js(1) js'(1) jj by simp
qed

lemma agree_above_0:
  assumes "mset b = mset a" "\<forall>p. 0 < p \<and> p < length a \<longrightarrow> b ! p = a ! p"
  shows "b = a"
proof (cases a)
  case Nil
  then show ?thesis using assms(1) by simp
next
  case (Cons x as)
  have len: "length b = length a" using assms(1) by (rule mset_eq_length)
  then obtain y bs where b: "b = y # bs" using Cons by (cases b) simp_all
  have "bs = as"
  proof (rule nth_equalityI)
    show "length bs = length as" using len b Cons by simp
  next
    fix p assume "p < length bs"
    then show "bs ! p = as ! p" using assms(2) [rule_format, of "Suc p"] b Cons len by simp
  qed
  then show ?thesis using assms(1) b Cons by simp
qed

lemma fisher_yates_surj:
  "distinct a \<Longrightarrow> i < length a \<Longrightarrow> mset b = mset a \<Longrightarrow>
   \<forall>p. i < p \<and> p < length a \<longrightarrow> b ! p = a ! p \<Longrightarrow>
   \<exists>js. valid_picks js i \<and> fisher_yates js i a = b"
proof (induction i arbitrary: a)
  case 0
  then have "b = a" by (intro agree_above_0) simp_all
  then show ?case by simp
next
  case (Suc i)
  have len: "length b = length a" using Suc.prems(3) by (rule mset_eq_length)
  have db: "distinct b" using Suc.prems(1,3) mset_eq_imp_distinct_iff by blast
  have "b ! Suc i \<in> set b" using Suc.prems(2) len by simp
  then have "b ! Suc i \<in> set a" using Suc.prems(3) mset_eq_setD by blast
  then obtain j where j: "j < length a" "a ! j = b ! Suc i"
    by (auto simp: in_set_conv_nth)
  have jle: "j \<le> Suc i"
  proof (rule ccontr)
    assume "\<not> j \<le> Suc i"
    then have "Suc i < j" by simp
    then have "b ! j = a ! j" using Suc.prems(4) j(1) by simp
    then have "b ! j = b ! Suc i" using j(2) by simp
    then have "j = Suc i"
      using db j(1) Suc.prems(2) len by (simp add: nth_eq_iff_index_eq)
    then show False using \<open>Suc i < j\<close> by simp
  qed
  let ?a = "swap (Suc i) j a"
  have d: "distinct ?a" using Suc.prems(1,2) j(1) by (intro distinct_swap)
  have m: "mset b = mset ?a"
    using Suc.prems(2,3) j(1) by (simp add: mset_swap_in_range)
  have ag: "\<forall>p. i < p \<and> p < length ?a \<longrightarrow> b ! p = ?a ! p"
  proof (intro allI impI)
    fix p assume p: "i < p \<and> p < length ?a"
    show "b ! p = ?a ! p"
    proof (cases "p = Suc i")
      case True
      then show ?thesis using swap_nth_first [OF Suc.prems(2) j(1)] j(2) by simp
    next
      case False
      then have "Suc i < p" using p by simp
      then have "?a ! p = a ! p" using jle by (intro swap_nth_other) simp_all
      then show ?thesis using Suc.prems(4) p \<open>Suc i < p\<close> by simp
    qed
  qed
  from Suc.IH [OF d _ m ag] Suc.prems(2)
  obtain js where "valid_picks js i" "fisher_yates js i ?a = b" by auto
  then have "valid_picks (j # js) (Suc i) \<and> fisher_yates (j # js) (Suc i) a = b"
    using jle by simp
  then show ?case by blast
qed

lemma fisher_yates_bij:
  assumes "distinct xs" "mset ys = mset xs"
  shows "\<exists>!js. valid_picks js (length xs - 1) \<and> fisher_yates js (length xs - 1) xs = ys"
proof (cases xs)
  case Nil
  then show ?thesis using assms(2) by auto
next
  case (Cons x xs')
  then have lt: "length xs - 1 < length xs" by simp
  have "\<forall>p. length xs - 1 < p \<and> p < length xs \<longrightarrow> ys ! p = xs ! p" by auto
  from fisher_yates_surj [OF assms(1) lt assms(2) this]
  obtain js where js: "valid_picks js (length xs - 1)"
    "fisher_yates js (length xs - 1) xs = ys" by blast
  show ?thesis
  proof (rule ex1I [of _ js])
    show "valid_picks js (length xs - 1) \<and> fisher_yates js (length xs - 1) xs = ys"
      using js by simp
  next
    fix js' assume "valid_picks js' (length xs - 1) \<and> fisher_yates js' (length xs - 1) xs = ys"
    then show "js' = js"
      using fisher_yates_inj [OF assms(1) lt _ js(1), of js'] js(2) by simp
  qed
qed

lemma swap_map:
  "i < length a \<Longrightarrow> j < length a \<Longrightarrow> swap i j (map f a) = map f (swap i j a)"
  by (simp add: swap_def map_update)

lemma fisher_yates_map:
  "valid_picks js i \<Longrightarrow> i < length a \<Longrightarrow>
   fisher_yates js i (map f a) = map f (fisher_yates js i a)"
proof (induction js i arbitrary: a rule: valid_picks.induct)
  case (2 j js i)
  have "swap (Suc i) j (map f a) = map f (swap (Suc i) j a)"
    using "2.prems" by (intro swap_map) simp_all
  then show ?case using 2 by simp
qed simp_all

lemma shuffleArray_fisher_yates:
  "shuffleArray rnd xs = fisher_yates (picks rnd 0 (length xs - 1)) (length xs - 1) xs"
  by (simp add: shuffleArray_def shuffle_loop_fisher_yates)

lemma shuffleArray_positions:
  assumes "valid_rnd rnd"
  shows "shuffleArray rnd xs = map ((!) xs) (shuffleArray rnd [0..<length xs])"
proof (cases xs)
  case Nil
  then show ?thesis by (simp add: shuffleArray_def)
next
  case (Cons x xs')
  let ?n = "length xs - 1"
  have v: "valid_picks (picks rnd 0 ?n) ?n" using assms by (rule valid_picks_picks)
  have lt: "?n < length [0..<length xs]" using Cons by simp
  have "shuffleArray rnd (map ((!) xs) [0..<length xs])
      = map ((!) xs) (shuffleArray rnd [0..<length xs])"
    unfolding shuffleArray_fisher_yates using fisher_yates_map [OF v lt, of "(!) xs"]
    by simp
  then show ?thesis by (simp add: map_nth)
qed

subsection \<open>Selections and answers\<close>

lemma reachable_subset_bank: "reachable bank s \<Longrightarrow> set (allQuestions s) \<subseteq> set bank"
proof -
  assume "reachable bank s"
  then obtain rnd where "valid_rnd rnd" "allQuestions s = sample bank rnd"
    using reachable_sampled by blast
  then have "mset (allQuestions s) \<subseteq># mset bank" using mset_sample by simp
  then show ?thesis using set_mset_mono by fastforce
qed

lemma option_ids_in_bank:
  assumes "set (allQuestions s) \<subseteq> set bank" "optionId \<in> option_ids s"
  shows "\<exists>q \<in> set bank. \<exists>opt \<in> set (options q). option_id opt = optionId"
proof -
  from assms(2) obtain q where q: "currentQuestion s = Some q"
    "optionId \<in> set (map option_id (options q))"
    by (auto simp: option_ids_def split: option.splits)
  from q(1) have "q \<in> set (filteredQuestions s)"
    by (auto simp: currentQuestion_def split: if_splits)
  then have "q \<in> set bank" using assms(1) by (auto simp: filteredQuestions_def)
  then show ?thesis using q(2) by auto
qed

lemma selectedOptionId_fire:
  "selectedOptionId (fire bank e s) = selectedOptionId s \<or>
   selectedOptionId (fire bank e s) = None \<or>
   (\<exists>optionId. e = ClickOption optionId \<and> selectedOptionId (fire bank e s) = Some optionId)"
  by (cases e)
     (simp_all add: fire_def handleStart_def handleOptionClick_def handleSubmit_def
        handleNext_def selectDifficulty_def selectCategory_def resetFilters_def
        handleRestart_def intervalCallback_def Let_def split: option.splits)

lemma reachable_selection:
  "reachable bank s \<Longrightarrow> selectedOptionId s = Some sel \<Longrightarrow>
   \<exists>q \<in> set bank. \<exists>opt \<in> set (options q). option_id opt = sel"
proof (induction arbitrary: sel rule: reachable.induct)
  case (mount rnd)
  then show ?case by (simp add: initialSession_def)
next
  case (event s e)
  have "selectedOptionId (fire bank e s) = selectedOptionId s \<or>
      selectedOptionId (fire bank e s) = None \<or>
      (\<exists>optionId. e = ClickOption optionId \<and>
         selectedOptionId (fire bank e s) = Some optionId)"
    by (rule selectedOptionId_fire)
  then show ?case
  proof (elim disjE exE conjE)
    assume "selectedOptionId (fire bank e s) = selectedOptionId s"
    then show ?thesis using event.IH event.prems by simp
  next
    assume "selectedOptionId (fire bank e s) = None"
    then show ?thesis using event.prems by simp
  next
    fix optionId
    assume "e = ClickOption optionId" "selectedOptionId (fire bank e s) = Some optionId"
    then have "sel = optionId" "optionId \<in> option_ids s"
      using event.prems event.hyps(2) by simp_all
    then show ?thesis
      using option_ids_in_bank [OF reachable_subset_bank [OF event.hyps(1)]] by blast
  qed
qed

lemma answers_fire_submitted:
  assumes "isSubmitted s" "enabled s e"
  shows "answers (fire bank e s) = answers s \<or> answers (fire bank e s) = []"
  using assms
  by (cases e)
     (simp_all add: fire_def handleStart_def handleOptionClick_def
        handleNext_def selectDifficulty_def selectCategory_def resetFilters_def
        handleRestart_def intervalCallback_def Let_def)

lemma fire_submit_reachable:
  assumes "reachable bank s" "view_of s = QuestionView" "\<not> isSubmitted s"
    "truthy_string (selectedOptionId s)"
  shows "\<exists>q sel. currentQuestion s = Some q \<and> selectedOptionId s = Some sel \<and>
           fire bank ClickSubmit s =
             s\<lparr> answers := answers s @
                   [\<lparr> questionId = question_id q, answerOptionId = sel,
                      isCorrect = (sel = correctOptionId q) \<rparr>],
                isSubmitted := True \<rparr>"
proof -
  have inv: "session_inv s" using assms(1) by (rule reachable_inv)
  obtain q where q: "currentQuestion s = Some q"
    using question_view_has_question [OF inv assms(2)] by blast
  obtain sel where sel: "selectedOptionId s = Some sel"
    using assms(4) by (auto simp: truthy_string_def split: option.splits)
  have st: "\<not> isFinished s" "timeRemaining s \<noteq> Some 0"
    using assms(2) inv by (auto simp: view_of_def session_inv_def split: if_splits)
  have hs: "handleSubmit s =
             s\<lparr> answers := answers s @
                   [\<lparr> questionId = question_id q, answerOptionId = sel,
                      isCorrect = (sel = correctOptionId q) \<rparr>],
                isSubmitted := True \<rparr>"
    using assms(4) q sel by (simp add: handleSubmit_def)
  have "timerEffect (handleSubmit s) = handleSubmit s"
    unfolding hs using st by (auto simp: timerEffect_def timerRunning_def)
  then have "fire bank ClickSubmit s = handleSubmit s" by (simp add: fire_def)
  then show ?thesis using q sel hs by simp
qed

section \<open>The claims\<close>

subsection \<open>C1: submit appends one answer and locks the question\<close>

text \<open>
  Claim C1. \<open>submit()\<close> is the click on the submit button. On the question page of a
  reachable session, with an option selected and the question not yet submitted, it
  appends exactly one answer, for the current question and the selected option, whose
  \<open>isCorrect\<close> says whether that option is the question's \<open>correctOptionId\<close>, and it
  sets \<open>isSubmitted\<close>; nothing else changes. An option is selected when
  \<open>selectedOptionId\<close> is truthy, which is the test of the source; in a reachable session
  over a bank whose option ids are not empty every selection is. The click changes
  nothing when no option is selected and when the question is already submitted: the
  button is disabled without a selection and is not rendered on a submitted question,
  and no event that a submitted session offers adds an answer. The handler behind the
  button appends under its own guard, a selection and a current question, and returns
  at once when either is missing.
\<close>

theorem submit_appends_and_locks:
  "(reachable bank s \<and> view_of s = QuestionView \<and> \<not> isSubmitted s \<and>
    truthy_string (selectedOptionId s) \<longrightarrow>
      (\<exists>q sel. currentQuestion s = Some q \<and> selectedOptionId s = Some sel \<and>
         click bank ClickSubmit s =
           s\<lparr> answers := answers s @
                 [\<lparr> questionId = question_id q, answerOptionId = sel,
                    isCorrect = (sel = correctOptionId q) \<rparr>],
              isSubmitted := True \<rparr>)) \<and>
   (option_ids_nonempty bank \<and> reachable bank s \<and> selectedOptionId s \<noteq> None \<longrightarrow>
      truthy_string (selectedOptionId s)) \<and>
   (\<not> truthy_string (selectedOptionId s) \<or> isSubmitted s \<longrightarrow>
      click bank ClickSubmit s = s) \<and>
   (isSubmitted s \<longrightarrow>
      (\<forall>e. enabled s e \<longrightarrow>
         answers (fire bank e s) = answers s \<or> answers (fire bank e s) = [])) \<and>
   (truthy_string (selectedOptionId s) \<and> selectedOptionId s = Some sel' \<and>
    currentQuestion s = Some q' \<longrightarrow>
      handleSubmit s =
        s\<lparr> answers := answers s @
              [\<lparr> questionId = question_id q', answerOptionId = sel',
                 isCorrect = (sel' = correctOptionId q') \<rparr>],
           isSubmitted := True \<rparr>) \<and>
   (\<not> truthy_string (selectedOptionId s) \<or> currentQuestion s = None \<longrightarrow>
      handleSubmit s = s)"
proof -
  have a: "\<exists>q sel. currentQuestion s = Some q \<and> selectedOptionId s = Some sel \<and>
         click bank ClickSubmit s =
           s\<lparr> answers := answers s @
                 [\<lparr> questionId = question_id q, answerOptionId = sel,
                    isCorrect = (sel = correctOptionId q) \<rparr>],
              isSubmitted := True \<rparr>"
    if "reachable bank s \<and> view_of s = QuestionView \<and> \<not> isSubmitted s \<and>
        truthy_string (selectedOptionId s)"
  proof -
    have "enabled s ClickSubmit" using that by simp
    then have "click bank ClickSubmit s = fire bank ClickSubmit s" by (simp add: click_def)
    then show ?thesis using fire_submit_reachable [of bank s] that by simp
  qed
  have b: "truthy_string (selectedOptionId s)"
    if "option_ids_nonempty bank \<and> reachable bank s \<and> selectedOptionId s \<noteq> None"
  proof -
    from that obtain sel where sel: "selectedOptionId s = Some sel" by auto
    from reachable_selection [OF _ sel, of bank] that
    have "sel \<noteq> []" by (auto simp: option_ids_nonempty_def)
    then show ?thesis using sel by (simp add: truthy_string_def)
  qed
  have c: "click bank ClickSubmit s = s"
    if "\<not> truthy_string (selectedOptionId s) \<or> isSubmitted s"
    using that by (auto simp: click_def)
  have d: "\<forall>e. enabled s e \<longrightarrow>
         answers (fire bank e s) = answers s \<or> answers (fire bank e s) = []"
    if "isSubmitted s"
    using answers_fire_submitted [OF that] by blast
  have e: "handleSubmit s =
        s\<lparr> answers := answers s @
              [\<lparr> questionId = question_id q', answerOptionId = sel',
                 isCorrect = (sel' = correctOptionId q') \<rparr>],
           isSubmitted := True \<rparr>"
    if "truthy_string (selectedOptionId s)" "selectedOptionId s = Some sel'"
      "currentQuestion s = Some q'"
    using that by (simp add: handleSubmit_def)
  have f: "handleSubmit s = s"
    if "\<not> truthy_string (selectedOptionId s) \<or> currentQuestion s = None"
    using that by (auto simp: handleSubmit_def split: option.splits)
  show ?thesis using a b c d e f by blast
qed

theorem submit_appends_and_locks_witness:
  "reachable exBank exSelected \<and> view_of exSelected = QuestionView \<and>
   \<not> isSubmitted exSelected \<and> selectedOptionId exSelected = Some ''b'' \<and>
   currentQuestion exSelected = Some exQ1 \<and> correctOptionId exQ1 = ''a'' \<and>
   click exBank ClickSubmit exSelected =
     exSelected\<lparr> answers := answers exSelected @
                    [\<lparr> questionId = 1, answerOptionId = ''b'', isCorrect = False \<rparr>],
                  isSubmitted := True \<rparr> \<and>
   option_ids_nonempty exBank \<and>
   \<not> truthy_string (selectedOptionId exStarted) \<and>
   click exBank ClickSubmit exStarted = exStarted \<and>
   isSubmitted exSubmitted \<and> click exBank ClickSubmit exSubmitted = exSubmitted \<and>
   enabled exSubmitted ClickNext \<and>
   answers (fire exBank ClickNext exSubmitted) = answers exSubmitted"
proof -
  have v: "view_of exSelected = QuestionView" "\<not> isSubmitted exSelected"
    by (simp_all add: exSelected_eq view_of_def filteredQuestions_def matches_def)
  have h: "selectedOptionId exSelected = Some ''b''" "currentQuestion exSelected = Some exQ1"
    by (simp_all add: exSelected_eq currentQuestion_def filteredQuestions_def matches_def)
  have q: "correctOptionId exQ1 = ''a''" "question_id exQ1 = 1"
    by (simp_all add: exQ1_def)
  have ne: "option_ids_nonempty exBank"
    by (simp add: option_ids_nonempty_def exBank_def exQ1_def exQ2_def exOptions_def)
  have t: "truthy_string (selectedOptionId exSelected)"
    using submit_appends_and_locks [of exBank exSelected "''b''" exQ1]
      ne reachable_exSelected h(1) by blast
  have "\<exists>q sel. currentQuestion exSelected = Some q \<and> selectedOptionId exSelected = Some sel \<and>
         click exBank ClickSubmit exSelected =
           exSelected\<lparr> answers := answers exSelected @
                 [\<lparr> questionId = question_id q, answerOptionId = sel,
                    isCorrect = (sel = correctOptionId q) \<rparr>],
              isSubmitted := True \<rparr>"
    using submit_appends_and_locks [of exBank exSelected "''b''" exQ1]
      reachable_exSelected v t by blast
  then have 1: "click exBank ClickSubmit exSelected =
     exSelected\<lparr> answers := answers exSelected @
                    [\<lparr> questionId = 1, answerOptionId = ''b'', isCorrect = False \<rparr>],
                  isSubmitted := True \<rparr>"
    using h q by auto
  have n: "\<not> truthy_string (selectedOptionId exStarted)"
    by (simp add: exStarted_eq truthy_string_def)
  have 2: "click exBank ClickSubmit exStarted = exStarted"
    using submit_appends_and_locks [of exBank exStarted "''b''" exQ1] n by blast
  have sub: "isSubmitted exSubmitted" by (simp add: exSubmitted_eq)
  have 3: "click exBank ClickSubmit exSubmitted = exSubmitted"
    using submit_appends_and_locks [of exBank exSubmitted "''b''" exQ1] sub by blast
  have en: "enabled exSubmitted ClickNext"
    by (simp add: exSubmitted_eq view_of_def filteredQuestions_def matches_def)
  have "answers (fire exBank ClickNext exSubmitted) = answers exSubmitted
      \<or> answers (fire exBank ClickNext exSubmitted) = []"
    using submit_appends_and_locks [of exBank exSubmitted "''b''" exQ1] sub en by blast
  moreover have "answers (fire exBank ClickNext exSubmitted) \<noteq> []"
    by (simp add: exSubmitted_eq fire_def handleNext_def filteredQuestions_def matches_def)
  ultimately have 4: "answers (fire exBank ClickNext exSubmitted) = answers exSubmitted"
    by blast
  show ?thesis using reachable_exSelected v h q ne n sub en 1 2 3 4 by simp
qed

subsection \<open>C3: the index stays inside a non-empty filtered set\<close>

text \<open>
  Claim C3, as amended. In every reachable session the index is at least 0; it is below
  the number of filtered questions whenever the filtered set is not empty, and it is 0
  when the filtered set is empty (no index lies in an empty range). On the question
  page the current question exists.
\<close>

theorem index_within_nonempty_filtered_set:
  "reachable bank s \<Longrightarrow>
     0 \<le> currentIndex s \<and>
     (filteredQuestions s \<noteq> [] \<longrightarrow> currentIndex s < int (length (filteredQuestions s))) \<and>
     (filteredQuestions s = [] \<longrightarrow> currentIndex s = 0) \<and>
     (view_of s = QuestionView \<longrightarrow> (\<exists>q. currentQuestion s = Some q))"
  using reachable_inv [of bank s] question_view_has_question [of s]
  by (simp add: session_inv_def)

theorem index_within_nonempty_filtered_set_witness:
  "reachable exBank exSubmitted \<and> 0 \<le> currentIndex exSubmitted \<and>
   filteredQuestions exSubmitted \<noteq> [] \<and>
   currentIndex exSubmitted < int (length (filteredQuestions exSubmitted)) \<and>
   reachable exBank exEmpty \<and> filteredQuestions exEmpty = [] \<and> currentIndex exEmpty = 0"
proof -
  have ne: "filteredQuestions exSubmitted \<noteq> []"
    by (simp add: exSubmitted_eq filteredQuestions_def matches_def)
  show ?thesis
    using index_within_nonempty_filtered_set [OF reachable_exSubmitted]
      index_within_nonempty_filtered_set [OF reachable_exEmpty]
      ne filteredQuestions_exEmpty reachable_exSubmitted reachable_exEmpty
    by simp
qed

text \<open>
  The claim as written bounds the index by the size of the filtered set also when that
  set is empty: in the reachable session \<open>exEmpty\<close> nothing matches the filter and the
  index 0 is not below 0.
\<close>

theorem index_bound_counterexample:
  "reachable exBank exEmpty \<and>
   \<not> (0 \<le> currentIndex exEmpty \<and>
      currentIndex exEmpty < int (length (filteredQuestions exEmpty)))"
  using reachable_exEmpty by (simp add: filteredQuestions_exEmpty)

subsection \<open>C4: the timer counts down and finishes the session\<close>

text \<open>
  Claim C4. While the session is started, not finished, and the remaining time is set
  and positive (exactly then the interval is installed), a tick lowers the remaining
  time by 1 and leaves the answers as they are; the tick that brings it to 0 finishes
  the session, so only submitted questions are in the answers and a pending selection
  is not recorded. Started from the home page of a reachable session with a timer of
  \<open>n\<close> seconds, and with no other event, every one of the first \<open>n\<close> ticks is enabled
  and after the \<open>n\<close>-th the session shows the results; the home page offers 120, 300
  and 600 for \<open>n\<close>.
\<close>

theorem timer_counts_down_and_finishes:
  "(timerRunning s \<and> timeRemaining s = Some t \<longrightarrow>
      timeRemaining (fire bank Tick s) = Some (t - 1) \<and>
      (isFinished (fire bank Tick s) \<longleftrightarrow> t = 1) \<and>
      answers (fire bank Tick s) = answers s) \<and>
   (enabled s Tick \<longleftrightarrow>
      isStarted s \<and> \<not> isFinished s \<and> (\<exists>r. timeRemaining s = Some r \<and> 0 < r)) \<and>
   (reachable bank s \<and> view_of s = Home \<and> filteredQuestions s \<noteq> [] \<and>
    timerDuration s = Some (int n) \<longrightarrow>
      (\<forall>k<n. enabled ((fire bank Tick ^^ k) (fire bank (ClickStart now) s)) Tick \<and>
             timeRemaining ((fire bank Tick ^^ k) (fire bank (ClickStart now) s))
               = Some (int n - int k)) \<and>
      isFinished ((fire bank Tick ^^ n) (fire bank (ClickStart now) s)) \<and>
      view_of ((fire bank Tick ^^ n) (fire bank (ClickStart now) s)) = Results \<and>
      answers ((fire bank Tick ^^ n) (fire bank (ClickStart now) s)) = [])"
proof -
  have a: "timeRemaining (fire bank Tick s) = Some (t - 1) \<and>
      (isFinished (fire bank Tick s) \<longleftrightarrow> t = 1) \<and>
      answers (fire bank Tick s) = answers s"
    if "timerRunning s \<and> timeRemaining s = Some t"
    using tick_step [of s t bank] that by simp
  have b: "enabled s Tick \<longleftrightarrow>
      isStarted s \<and> \<not> isFinished s \<and> (\<exists>r. timeRemaining s = Some r \<and> 0 < r)"
    by (auto simp: timerRunning_def split: option.splits)
  have c: "(\<forall>k<n. enabled ((fire bank Tick ^^ k) (fire bank (ClickStart now) s)) Tick \<and>
             timeRemaining ((fire bank Tick ^^ k) (fire bank (ClickStart now) s))
               = Some (int n - int k)) \<and>
      isFinished ((fire bank Tick ^^ n) (fire bank (ClickStart now) s)) \<and>
      view_of ((fire bank Tick ^^ n) (fire bank (ClickStart now) s)) = Results \<and>
      answers ((fire bank Tick ^^ n) (fire bank (ClickStart now) s)) = []"
    if r: "reachable bank s" and v: "view_of s = Home" and f: "filteredQuestions s \<noteq> []"
      and d: "timerDuration s = Some (int n)"
  proof -
    let ?s0 = "fire bank (ClickStart now) s"
    have inv: "session_inv s" using r by (rule reachable_inv)
    have ns: "\<not> isStarted s" using v by (simp add: view_of_def split: if_splits)
    have home: "answers s = []" "\<not> isFinished s" "timeRemaining s = None"
      "timerDuration s \<in> {None, Some 120, Some 300, Some 600}"
      using inv ns by (simp_all add: session_inv_def)
    have npos: "0 < n" using home(4) d by auto
    have hs: "handleStart now s = s\<lparr> isStarted := True, startTime := Some now,
        timeRemaining := Some (int n) \<rparr>"
      using f d npos by (simp add: handleStart_def truthy_number_def Let_def)
    have s0eq: "?s0 = s\<lparr> isStarted := True, startTime := Some now,
        timeRemaining := Some (int n) \<rparr>"
      using home npos by (simp add: fire_def hs timerEffect_def timerRunning_def)
    have s0: "isStarted ?s0" "\<not> isFinished ?s0" "timeRemaining ?s0 = Some (int n)"
      "answers ?s0 = []"
      unfolding s0eq using home by simp_all
    have 1: "\<forall>k<n. enabled ((fire bank Tick ^^ k) ?s0) Tick \<and>
             timeRemaining ((fire bank Tick ^^ k) ?s0) = Some (int n - int k)"
      using ticks_countdown [OF s0(1-3), of _ bank] by simp
    have 2: "isFinished ((fire bank Tick ^^ n) ?s0)" "isStarted ((fire bank Tick ^^ n) ?s0)"
      "answers ((fire bank Tick ^^ n) ?s0) = []"
      using ticks_expire [OF s0(1-3) npos, of bank] s0(4) by simp_all
    have 3: "view_of ((fire bank Tick ^^ n) ?s0) = Results"
      using 2 by (simp add: view_of_def)
    show ?thesis using 1 2 3 by blast
  qed
  show ?thesis using a b c by blast
qed

theorem timer_counts_down_and_finishes_witness:
  "reachable exBank exTimerHome \<and> view_of exTimerHome = Home \<and>
   filteredQuestions exTimerHome \<noteq> [] \<and> timerDuration exTimerHome = Some 120 \<and>
   isFinished ((fire exBank Tick ^^ 120) (fire exBank (ClickStart 1000) exTimerHome)) \<and>
   view_of ((fire exBank Tick ^^ 120) (fire exBank (ClickStart 1000) exTimerHome)) = Results \<and>
   answers ((fire exBank Tick ^^ 120) (fire exBank (ClickStart 1000) exTimerHome)) = [] \<and>
   timeRemaining ((fire exBank Tick ^^ 119) (fire exBank (ClickStart 1000) exTimerHome))
     = Some 1"
proof -
  have v: "view_of exTimerHome = Home" "timerDuration exTimerHome = Some (int 120)"
    by (simp_all add: exTimerHome_eq view_of_def)
  have f: "filteredQuestions exTimerHome \<noteq> []"
    by (simp add: filteredQuestions_exTimerHome)
  note t = timer_counts_down_and_finishes [of exTimerHome 1 exBank 120 1000]
  have fin: "isFinished ((fire exBank Tick ^^ 120) (fire exBank (ClickStart 1000) exTimerHome)) \<and>
   view_of ((fire exBank Tick ^^ 120) (fire exBank (ClickStart 1000) exTimerHome)) = Results \<and>
   answers ((fire exBank Tick ^^ 120) (fire exBank (ClickStart 1000) exTimerHome)) = []"
    using t reachable_exTimerHome v f by blast
  have "\<forall>k<120. timeRemaining ((fire exBank Tick ^^ k)
            (fire exBank (ClickStart 1000) exTimerHome)) = Some (int 120 - int k)"
    using t reachable_exTimerHome v f by blast
  then have "timeRemaining ((fire exBank Tick ^^ 119)
            (fire exBank (ClickStart 1000) exTimerHome)) = Some (int 120 - int 119)"
    by simp
  then show ?thesis using fin reachable_exTimerHome v f by simp
qed

subsection \<open>C5: the five tiers of the evaluation\<close>

text \<open>
  Claim C5. \<open>getDetailedEvaluation\<close> depends on the percentage alone. On \<open>[0, 100]\<close> it
  returns the first text exactly at 100, the second exactly on \<open>[85, 100)\<close>, the third on
  \<open>[70, 85)\<close>, the fourth on \<open>[50, 70)\<close> and the fifth below 50; the five texts are
  pairwise different, so the tiers cover the range and do not overlap. A score within
  the total gives a percentage in \<open>[0, 100]\<close>. With 15 correct answers and a total of 20
  the percentage is 75 and the text is the third one. (The quotient and the product are
  computed exactly here; for the totals up to 20 that a working set allows, the
  rounding of the source's double arithmetic gives the same integer.)
\<close>

theorem evaluation_has_five_tiers:
  "(0 \<le> p \<and> p \<le> 100 \<longrightarrow>
      (getDetailedEvaluation p = evaluation100 \<longleftrightarrow> p = 100) \<and>
      (getDetailedEvaluation p = evaluation85 \<longleftrightarrow> 85 \<le> p \<and> p < 100) \<and>
      (getDetailedEvaluation p = evaluation70 \<longleftrightarrow> 70 \<le> p \<and> p < 85) \<and>
      (getDetailedEvaluation p = evaluation50 \<longleftrightarrow> 50 \<le> p \<and> p < 70) \<and>
      (getDetailedEvaluation p = evaluationBelow50 \<longleftrightarrow> p < 50)) \<and>
   distinct [evaluation100, evaluation85, evaluation70, evaluation50, evaluationBelow50] \<and>
   (score s \<le> total s \<longrightarrow> 0 \<le> percentage s \<and> percentage s \<le> 100) \<and>
   (score s = 15 \<and> total s = 20 \<longrightarrow>
      percentage s = 75 \<and>
      getDetailedEvaluation (real_of_int (percentage s)) = evaluation70)"
proof -
  note d = evaluation_texts_distinct
  have t: "(getDetailedEvaluation p = evaluation100 \<longleftrightarrow> p = 100) \<and>
      (getDetailedEvaluation p = evaluation85 \<longleftrightarrow> 85 \<le> p \<and> p < 100) \<and>
      (getDetailedEvaluation p = evaluation70 \<longleftrightarrow> 70 \<le> p \<and> p < 85) \<and>
      (getDetailedEvaluation p = evaluation50 \<longleftrightarrow> 50 \<le> p \<and> p < 70) \<and>
      (getDetailedEvaluation p = evaluationBelow50 \<longleftrightarrow> p < 50)"
    if "0 \<le> p \<and> p \<le> 100"
    using that d unfolding getDetailedEvaluation_def by auto
  have r: "0 \<le> percentage s \<and> percentage s \<le> 100" if "score s \<le> total s"
    using percentage_of_range [OF that] by (simp add: percentage_def)
  have sc: "percentage s = 75 \<and>
      getDetailedEvaluation (real_of_int (percentage s)) = evaluation70"
    if "score s = 15 \<and> total s = 20"
    using that
    by (simp add: percentage_def percentage_of_def math_round_def getDetailedEvaluation_def)
  show ?thesis using t d r sc by blast
qed

theorem evaluation_has_five_tiers_witness:
  "getDetailedEvaluation 85 = evaluation85 \<and> getDetailedEvaluation 84 = evaluation70 \<and>
   getDetailedEvaluation 100 = evaluation100 \<and> getDetailedEvaluation 50 = evaluation50 \<and>
   getDetailedEvaluation 49 = evaluationBelow50 \<and>
   score exSubmitted \<le> total exSubmitted \<and> percentage exSubmitted = 0"
proof -
  have a: "getDetailedEvaluation 85 = evaluation85"
    using evaluation_has_five_tiers [of 85 exSubmitted] by simp
  have b: "getDetailedEvaluation 84 = evaluation70"
    using evaluation_has_five_tiers [of 84 exSubmitted] by simp
  have c: "getDetailedEvaluation 100 = evaluation100"
    using evaluation_has_five_tiers [of 100 exSubmitted] by simp
  have d: "getDetailedEvaluation 50 = evaluation50"
    using evaluation_has_five_tiers [of 50 exSubmitted] by simp
  have e: "getDetailedEvaluation 49 = evaluationBelow50"
    using evaluation_has_five_tiers [of 49 exSubmitted] by simp
  have f: "score exSubmitted = 0" "total exSubmitted = 2"
    by (simp_all add: score_def total_def exSubmitted_eq filteredQuestions_def matches_def)
  have g: "percentage exSubmitted = 0"
    using f by (simp add: percentage_def percentage_of_def math_round_def)
  show ?thesis using a b c d e f g by simp
qed

subsection \<open>C6: the working set is sampled at mount and at restart only\<close>

text \<open>
  Claim C6. The working set is the first 20 elements of the shuffled bank, drawn when
  the component mounts and at each restart; it has \<open>min (length bank) 20\<close> elements, all
  from the bank. No other event changes it. The filtered questions are the working set
  filtered by the two filters: a subsequence of it, in its order.
\<close>

theorem working_set_sampled_once:
  "allQuestions (initialSession bank rnd) = take 20 (shuffleArray rnd bank) \<and>
   allQuestions (fire bank (ClickRestart rnd) s) = take 20 (shuffleArray rnd bank) \<and>
   length (take 20 (shuffleArray rnd bank)) = min (length bank) 20 \<and>
   (valid_rnd rnd \<longrightarrow> mset (take 20 (shuffleArray rnd bank)) \<subseteq># mset bank) \<and>
   (\<forall>e. (\<forall>r. e \<noteq> ClickRestart r) \<longrightarrow> allQuestions (fire bank e s) = allQuestions s) \<and>
   filteredQuestions s =
     filter (\<lambda>q. (filterDifficulty s = Everything \<or> filterDifficulty s = Only (difficulty q)) \<and>
                 (filterCategory s = Everything \<or> filterCategory s = Only (category q)))
       (allQuestions s) \<and>
   subseq (filteredQuestions s) (allQuestions s) \<and>
   (reachable bank s \<longrightarrow>
      length (allQuestions s) = min (length bank) 20 \<and> mset (allQuestions s) \<subseteq># mset bank)"
proof -
  have 1: "allQuestions (initialSession bank rnd) = take 20 (shuffleArray rnd bank)"
    by (simp add: initialSession_def sample_def)
  have 2: "allQuestions (fire bank (ClickRestart rnd) s) = take 20 (shuffleArray rnd bank)"
    by (simp add: allQuestions_fire sample_def)
  have 3: "length (take 20 (shuffleArray rnd bank)) = min (length bank) 20"
    by simp
  have 4: "mset (take 20 (shuffleArray rnd bank)) \<subseteq># mset bank" if "valid_rnd rnd"
    using mset_sample [OF that, of bank] by (simp add: sample_def)
  have 5: "allQuestions (fire bank e s) = allQuestions s" if "\<forall>r. e \<noteq> ClickRestart r" for e
    using that by (cases e) (simp_all add: allQuestions_fire)
  have 6: "filteredQuestions s =
     filter (\<lambda>q. (filterDifficulty s = Everything \<or> filterDifficulty s = Only (difficulty q)) \<and>
                 (filterCategory s = Everything \<or> filterCategory s = Only (category q)))
       (allQuestions s)"
    unfolding filteredQuestions_def matches_def
    by (rule filter_cong) auto
  have 7: "subseq (filteredQuestions s) (allQuestions s)"
    by (simp add: filteredQuestions_def)
  have 8: "length (allQuestions s) = min (length bank) 20 \<and> mset (allQuestions s) \<subseteq># mset bank"
    if "reachable bank s"
    using reachable_sampled [OF that] length_sample mset_sample by auto
  show ?thesis using 1 2 3 4 5 6 7 8 by blast
qed

theorem working_set_sampled_once_witness:
  "valid_rnd exRnd \<and> reachable exBank exEmpty \<and>
   length (allQuestions exEmpty) = min (length exBank) 20 \<and>
   mset (allQuestions exEmpty) \<subseteq># mset exBank \<and>
   allQuestions (fire exBank (SelectCategory (Only Tense)) exStarted) = allQuestions exStarted \<and>
   subseq (filteredQuestions exEmpty) (allQuestions exEmpty)"
proof -
  have "\<forall>r. SelectCategory (Only Tense) \<noteq> ClickRestart r" by simp
  then have "allQuestions (fire exBank (SelectCategory (Only Tense)) exStarted)
      = allQuestions exStarted"
    using working_set_sampled_once [of exBank exRnd exStarted] by blast
  moreover have "length (allQuestions exEmpty) = min (length exBank) 20 \<and>
      mset (allQuestions exEmpty) \<subseteq># mset exBank \<and>
      subseq (filteredQuestions exEmpty) (allQuestions exEmpty)"
    using working_set_sampled_once [of exBank exRnd exEmpty] reachable_exEmpty by blast
  ultimately show ?thesis using valid_exRnd reachable_exEmpty by simp
qed

subsection \<open>C7: the score counts the correct answers and is bounded by the total\<close>

text \<open>
  Claim C7. In every reachable session the score is the number of positions of the
  answers list whose entry has \<open>isCorrect\<close>, there are at most as many answers as
  filtered questions, and so the score is at most the total.
\<close>

theorem score_counts_correct_answers:
  "reachable bank s \<Longrightarrow>
     score s = card {i. i < length (answers s) \<and> isCorrect (answers s ! i)} \<and>
     score s \<le> length (answers s) \<and> length (answers s) \<le> total s \<and>
     score s \<le> total s"
proof -
  assume r: "reachable bank s"
  have inv: "session_inv s" using r by (rule reachable_inv)
  have 1: "score s = card {i. i < length (answers s) \<and> isCorrect (answers s ! i)}"
    by (simp add: score_def length_filter_conv_card)
  have 2: "score s \<le> length (answers s)" by (simp add: score_def)
  have 3: "length (answers s) \<le> total s"
  proof (cases "filteredQuestions s = []")
    case True
    then show ?thesis using inv by (simp add: session_inv_def total_def)
  next
    case False
    then have "currentIndex s < int (length (filteredQuestions s))"
      and "int (length (answers s)) \<le> currentIndex s + (if isSubmitted s then 1 else 0)"
      using inv by (simp_all add: session_inv_def)
    then show ?thesis by (simp add: total_def split: if_splits)
  qed
  show ?thesis using 1 2 3 by linarith
qed

theorem score_counts_correct_answers_witness:
  "reachable exBank exSubmitted \<and> score exSubmitted = 0 \<and> total exSubmitted = 2 \<and>
   score exSubmitted \<le> total exSubmitted"
proof -
  have "score exSubmitted = 0" "total exSubmitted = 2"
    by (simp_all add: score_def total_def exSubmitted_eq filteredQuestions_def matches_def)
  then show ?thesis
    using score_counts_correct_answers [OF reachable_exSubmitted] reachable_exSubmitted
    by simp
qed

subsection \<open>C8: start is guarded by a non-empty filtered set\<close>

text \<open>
  Claim C8. With an empty filtered set \<open>handleStart\<close> changes nothing (and the start
  button is disabled). With a non-empty one it sets \<open>isStarted\<close>, records the
  timestamp and copies a configured timer duration into the remaining time; the test
  \<open>if (timerDuration)\<close> takes the duration 0 for none, a value the home page does not
  offer. From the home page of a reachable session the start leads to the question
  page, not finished, with the remaining time equal to the configured duration (none
  if none is configured).
\<close>

theorem start_is_guarded:
  "(length (filteredQuestions s) = 0 \<longrightarrow>
      handleStart now s = s \<and> \<not> enabled s (ClickStart now)) \<and>
   (length (filteredQuestions s) \<noteq> 0 \<longrightarrow>
      isStarted (handleStart now s) \<and> startTime (handleStart now s) = Some now \<and>
      (\<forall>d. timerDuration s = Some d \<and> d \<noteq> 0 \<longrightarrow>
           timeRemaining (handleStart now s) = Some d)) \<and>
   (reachable bank s \<and> view_of s = Home \<and> length (filteredQuestions s) \<noteq> 0 \<longrightarrow>
      enabled s (ClickStart now) \<and>
      view_of (fire bank (ClickStart now) s) = QuestionView \<and>
      isStarted (fire bank (ClickStart now) s) \<and>
      \<not> isFinished (fire bank (ClickStart now) s) \<and>
      startTime (fire bank (ClickStart now) s) = Some now \<and>
      timeRemaining (fire bank (ClickStart now) s) = timerDuration s)"
proof -
  have a: "handleStart now s = s \<and> \<not> enabled s (ClickStart now)"
    if "length (filteredQuestions s) = 0"
    using that by (simp add: handleStart_def)
  have b: "isStarted (handleStart now s) \<and> startTime (handleStart now s) = Some now \<and>
      (\<forall>d. timerDuration s = Some d \<and> d \<noteq> 0 \<longrightarrow>
           timeRemaining (handleStart now s) = Some d)"
    if "length (filteredQuestions s) \<noteq> 0"
    using that by (simp add: handleStart_def truthy_number_def Let_def)
  have c: "enabled s (ClickStart now) \<and>
      view_of (fire bank (ClickStart now) s) = QuestionView \<and>
      isStarted (fire bank (ClickStart now) s) \<and>
      \<not> isFinished (fire bank (ClickStart now) s) \<and>
      startTime (fire bank (ClickStart now) s) = Some now \<and>
      timeRemaining (fire bank (ClickStart now) s) = timerDuration s"
    if r: "reachable bank s" and v: "view_of s = Home"
      and f: "length (filteredQuestions s) \<noteq> 0"
  proof -
    have inv: "session_inv s" using r by (rule reachable_inv)
    have ns: "\<not> isStarted s" using v by (simp add: view_of_def split: if_splits)
    have home: "\<not> isFinished s" "timeRemaining s = None"
      "timerDuration s \<in> {None, Some 120, Some 300, Some 600}"
      using inv ns by (simp_all add: session_inv_def)
    have en: "enabled s (ClickStart now)" using v f by simp
    have tr: "timeRemaining (handleStart now s) = timerDuration s"
      using home f by (auto simp: handleStart_def truthy_number_def Let_def)
    have flds: "isStarted (handleStart now s)" "\<not> isFinished (handleStart now s)"
      "startTime (handleStart now s) = Some now"
      "filteredQuestions (handleStart now s) = filteredQuestions s"
      using home f by (simp_all add: handleStart_def Let_def filteredQuestions_def)
    have eff: "timerEffect (handleStart now s) = handleStart now s"
      using tr flds home by (auto simp: timerEffect_def timerRunning_def)
    show ?thesis using en tr flds f unfolding fire_def handler.simps eff
      by (simp add: view_of_def)
  qed
  show ?thesis using a b c by blast
qed

theorem start_is_guarded_witness:
  "length (filteredQuestions exNoBank) = 0 \<and> handleStart 1000 exNoBank = exNoBank \<and>
   \<not> enabled exNoBank (ClickStart 1000) \<and>
   reachable exBank exTimerHome \<and> view_of exTimerHome = Home \<and>
   length (filteredQuestions exTimerHome) \<noteq> 0 \<and>
   view_of (fire exBank (ClickStart 1000) exTimerHome) = QuestionView \<and>
   startTime (fire exBank (ClickStart 1000) exTimerHome) = Some 1000 \<and>
   timeRemaining (fire exBank (ClickStart 1000) exTimerHome) = Some 120"
proof -
  have e: "length (filteredQuestions exNoBank) = 0"
    by (simp add: filteredQuestions_exNoBank)
  have v: "view_of exTimerHome = Home" "timerDuration exTimerHome = Some 120"
    by (simp_all add: exTimerHome_eq view_of_def)
  have f: "length (filteredQuestions exTimerHome) \<noteq> 0"
    by (simp add: filteredQuestions_exTimerHome)
  have 1: "handleStart 1000 exNoBank = exNoBank \<and> \<not> enabled exNoBank (ClickStart 1000)"
    using start_is_guarded [of exNoBank 1000 exBank] e by blast
  have 2: "view_of (fire exBank (ClickStart 1000) exTimerHome) = QuestionView \<and>
      startTime (fire exBank (ClickStart 1000) exTimerHome) = Some 1000 \<and>
      timeRemaining (fire exBank (ClickStart 1000) exTimerHome) = timerDuration exTimerHome"
    using start_is_guarded [of exTimerHome 1000 exBank] reachable_exTimerHome v f by blast
  show ?thesis using e v f 1 2 reachable_exTimerHome by simp
qed

subsection \<open>C9: a filter change during a session keeps the selection and the lock\<close>

text \<open>
  Claim C9. Changing the difficulty or the category filter on the question page sets
  the index to 0 and empties the answers, and leaves \<open>selectedOptionId\<close> and
  \<open>isSubmitted\<close> as they were. So when the question on screen had been submitted and
  the new filtered set is not empty, its first question is shown as already submitted,
  with the old selection, while the answers are empty: the submit button is not
  offered and the next button is.
\<close>

theorem filter_change_keeps_selection_and_lock:
  "currentIndex (fire bank (SelectDifficulty d) s) = 0 \<and>
   answers (fire bank (SelectDifficulty d) s) = [] \<and>
   filterDifficulty (fire bank (SelectDifficulty d) s) = d \<and>
   selectedOptionId (fire bank (SelectDifficulty d) s) = selectedOptionId s \<and>
   isSubmitted (fire bank (SelectDifficulty d) s) = isSubmitted s \<and>
   currentIndex (fire bank (SelectCategory c) s) = 0 \<and>
   answers (fire bank (SelectCategory c) s) = [] \<and>
   filterCategory (fire bank (SelectCategory c) s) = c \<and>
   selectedOptionId (fire bank (SelectCategory c) s) = selectedOptionId s \<and>
   isSubmitted (fire bank (SelectCategory c) s) = isSubmitted s \<and>
   (\<forall>e q qs. reachable bank s \<and> view_of s = QuestionView \<and> isSubmitted s \<and>
        e \<in> {SelectDifficulty d, SelectCategory c} \<and>
        filteredQuestions (fire bank e s) = q # qs \<longrightarrow>
      view_of (fire bank e s) = QuestionView \<and>
      currentQuestion (fire bank e s) = Some q \<and>
      isSubmitted (fire bank e s) \<and>
      selectedOptionId (fire bank e s) = selectedOptionId s \<and>
      answers (fire bank e s) = [] \<and>
      \<not> enabled (fire bank e s) ClickSubmit \<and>
      enabled (fire bank e s) ClickNext)"
proof -
  have frame:
    "currentIndex (fire bank (SelectDifficulty d) s) = 0"
    "answers (fire bank (SelectDifficulty d) s) = []"
    "filterDifficulty (fire bank (SelectDifficulty d) s) = d"
    "selectedOptionId (fire bank (SelectDifficulty d) s) = selectedOptionId s"
    "isSubmitted (fire bank (SelectDifficulty d) s) = isSubmitted s"
    "currentIndex (fire bank (SelectCategory c) s) = 0"
    "answers (fire bank (SelectCategory c) s) = []"
    "filterCategory (fire bank (SelectCategory c) s) = c"
    "selectedOptionId (fire bank (SelectCategory c) s) = selectedOptionId s"
    "isSubmitted (fire bank (SelectCategory c) s) = isSubmitted s"
    by (simp_all add: fire_def selectDifficulty_def selectCategory_def)
  have shown: "view_of (fire bank e s) = QuestionView \<and>
      currentQuestion (fire bank e s) = Some q \<and>
      isSubmitted (fire bank e s) \<and>
      selectedOptionId (fire bank e s) = selectedOptionId s \<and>
      answers (fire bank e s) = [] \<and>
      \<not> enabled (fire bank e s) ClickSubmit \<and>
      enabled (fire bank e s) ClickNext"
    if r: "reachable bank s" and v: "view_of s = QuestionView" and sub: "isSubmitted s"
      and e: "e \<in> {SelectDifficulty d, SelectCategory c}"
      and f: "filteredQuestions (fire bank e s) = q # qs" for e q qs
  proof -
    have inv: "session_inv s" using r by (rule reachable_inv)
    have st: "isStarted s" "\<not> isFinished s" "timeRemaining s \<noteq> Some 0"
      using v inv by (auto simp: view_of_def session_inv_def split: if_splits)
    have fin: "\<not> isFinished (fire bank e s)"
      using e st by (auto simp: fire_def selectDifficulty_def selectCategory_def
          timerEffect_def timerRunning_def)
    have idx: "currentIndex (fire bank e s) = 0" "isStarted (fire bank e s)"
      "isSubmitted (fire bank e s)" "selectedOptionId (fire bank e s) = selectedOptionId s"
      "answers (fire bank e s) = []"
      using e st sub by (auto simp: fire_def selectDifficulty_def selectCategory_def)
    have vw: "view_of (fire bank e s) = QuestionView"
      using fin idx f by (simp add: view_of_def)
    have cq: "currentQuestion (fire bank e s) = Some q"
      using idx f by (simp add: currentQuestion_def)
    show ?thesis using vw cq idx by simp
  qed
  show ?thesis using frame shown by blast
qed

theorem filter_change_keeps_selection_and_lock_witness:
  "reachable exBank exSubmitted \<and> view_of exSubmitted = QuestionView \<and>
   isSubmitted exSubmitted \<and>
   filteredQuestions (fire exBank (SelectDifficulty (Only Advanced)) exSubmitted) = [exQ2] \<and>
   currentQuestion (fire exBank (SelectDifficulty (Only Advanced)) exSubmitted) = Some exQ2 \<and>
   isSubmitted (fire exBank (SelectDifficulty (Only Advanced)) exSubmitted) \<and>
   selectedOptionId (fire exBank (SelectDifficulty (Only Advanced)) exSubmitted) = Some ''b'' \<and>
   answers (fire exBank (SelectDifficulty (Only Advanced)) exSubmitted) = []"
proof -
  have v: "view_of exSubmitted = QuestionView"
    by (simp add: exSubmitted_eq view_of_def filteredQuestions_def matches_def)
  have sub: "isSubmitted exSubmitted" "selectedOptionId exSubmitted = Some ''b''"
    by (simp_all add: exSubmitted_eq)
  have f: "filteredQuestions (fire exBank (SelectDifficulty (Only Advanced)) exSubmitted)
             = [exQ2]"
    by (simp add: exSubmitted_eq fire_def selectDifficulty_def filteredQuestions_def
        matches_def exQ1_def exQ2_def)
  have "\<forall>e q qs. reachable exBank exSubmitted \<and> view_of exSubmitted = QuestionView \<and>
        isSubmitted exSubmitted \<and>
        e \<in> {SelectDifficulty (Only Advanced), SelectCategory Everything} \<and>
        filteredQuestions (fire exBank e exSubmitted) = q # qs \<longrightarrow>
      view_of (fire exBank e exSubmitted) = QuestionView \<and>
      currentQuestion (fire exBank e exSubmitted) = Some q \<and>
      isSubmitted (fire exBank e exSubmitted) \<and>
      selectedOptionId (fire exBank e exSubmitted) = selectedOptionId exSubmitted \<and>
      answers (fire exBank e exSubmitted) = [] \<and>
      \<not> enabled (fire exBank e exSubmitted) ClickSubmit \<and>
      enabled (fire exBank e exSubmitted) ClickNext"
    using filter_change_keeps_selection_and_lock
      [of exBank "Only Advanced" exSubmitted Everything] by blast
  then have "currentQuestion (fire exBank (SelectDifficulty (Only Advanced)) exSubmitted)
               = Some exQ2 \<and>
             isSubmitted (fire exBank (SelectDifficulty (Only Advanced)) exSubmitted) \<and>
             selectedOptionId (fire exBank (SelectDifficulty (Only Advanced)) exSubmitted)
               = selectedOptionId exSubmitted \<and>
             answers (fire exBank (SelectDifficulty (Only Advanced)) exSubmitted) = []"
    using reachable_exSubmitted v sub f by blast
  then show ?thesis using reachable_exSubmitted v sub f by simp
qed

subsection \<open>C10: restart keeps the configuration\<close>

text \<open>
  Claim C10. Restarting draws a new working set and resets the index, the answers, the
  selection, the submitted, finished and started flags and the remaining time; the
  difficulty filter, the category filter and the timer duration keep their values (and
  so does the start timestamp), and the session is back on the home page with them.
\<close>

theorem restart_keeps_configuration:
  "filterDifficulty (fire bank (ClickRestart rnd) s) = filterDifficulty s \<and>
   filterCategory (fire bank (ClickRestart rnd) s) = filterCategory s \<and>
   timerDuration (fire bank (ClickRestart rnd) s) = timerDuration s \<and>
   startTime (fire bank (ClickRestart rnd) s) = startTime s \<and>
   allQuestions (fire bank (ClickRestart rnd) s) = take 20 (shuffleArray rnd bank) \<and>
   currentIndex (fire bank (ClickRestart rnd) s) = 0 \<and>
   answers (fire bank (ClickRestart rnd) s) = [] \<and>
   selectedOptionId (fire bank (ClickRestart rnd) s) = None \<and>
   \<not> isSubmitted (fire bank (ClickRestart rnd) s) \<and>
   \<not> isFinished (fire bank (ClickRestart rnd) s) \<and>
   \<not> isStarted (fire bank (ClickRestart rnd) s) \<and>
   timeRemaining (fire bank (ClickRestart rnd) s) = None \<and>
   view_of (fire bank (ClickRestart rnd) s) = Home \<and>
   fire bank (ClickRestart rnd) s = handleRestart bank rnd s"
proof -
  have eq: "fire bank (ClickRestart rnd) s = handleRestart bank rnd s"
    by (simp add: fire_def handleRestart_def timerEffect_def timerRunning_def)
  show ?thesis unfolding eq by (simp add: handleRestart_def sample_def view_of_def)
qed

theorem restart_keeps_configuration_witness:
  "filterDifficulty (fire exBank (ClickRestart exRnd) exEmpty) = Only Intermediate \<and>
   filterCategory (fire exBank (ClickRestart exRnd) exEmpty) = Everything \<and>
   timerDuration (fire exBank (ClickRestart exRnd) exTimerHome) = Some 120 \<and>
   view_of (fire exBank (ClickRestart exRnd) exEmpty) = Home"
proof -
  have cfg: "filterDifficulty exEmpty = Only Intermediate"
    "filterCategory exEmpty = Everything" "timerDuration exTimerHome = Some 120"
    by (simp_all add: exEmpty_eq exTimerHome_eq)
  have "filterDifficulty (fire exBank (ClickRestart exRnd) exEmpty) = filterDifficulty exEmpty
      \<and> filterCategory (fire exBank (ClickRestart exRnd) exEmpty) = filterCategory exEmpty
      \<and> view_of (fire exBank (ClickRestart exRnd) exEmpty) = Home"
    using restart_keeps_configuration [of exBank exRnd exEmpty] by blast
  moreover have "timerDuration (fire exBank (ClickRestart exRnd) exTimerHome)
      = timerDuration exTimerHome"
    using restart_keeps_configuration [of exBank exRnd exTimerHome] by blast
  ultimately show ?thesis using cfg by simp
qed


end
